theory Spec2Isabelle
  imports Main "HOL-Library.Word"
begin

section \<open>Values of the runtime\<close>

text \<open>
  The encoders of \<^verbatim>\<open>src/core/tlv.ts\<close> run on JavaScript values. A byte is an
  \<open>8 word\<close>, a Buffer a list of bytes, a string a list of UTF-16 code units (what
  \<^verbatim>\<open>slice\<close> and \<^verbatim>\<open>length\<close> count), a number an \<open>int\<close> (only integral
  numbers are modelled, and the comparisons \<^verbatim>\<open>v == -1\<close> and \<^verbatim>\<open>v === 2\<close> of a
  parameter declared as a number are comparisons with a number).
\<close>

type_synonym byte = "8 word"
type_synonym bytes = "byte list"
type_synonym jstring = "16 word list"

datatype jsval = Undefined | Num int | Str jstring | Buf bytes

text \<open>
  The exceptions a call can end in. \<open>TypeError\<close> and \<open>RangeError\<close> are the runtime's;
  \<open>UnknownTagError\<close> is the error kind the specification names for a tag without an
  encoder, kept here so that statements about it can be written down.
\<close>

datatype error = TypeError | RangeError | SyntaxError | UnknownTagError

text \<open>An ASCII literal of the source as a string of code units.\<close>

definition str :: "string \<Rightarrow> jstring" where
  "str s = map (\<lambda>c. of_nat (of_char c)) s"

text \<open>\<^verbatim>\<open>a || b\<close>: the first operand when it is truthy.\<close>

fun truthy :: "jsval \<Rightarrow> bool" where
  "truthy Undefined = False"
| "truthy (Num n) = (n \<noteq> 0)"
| "truthy (Str s) = (s \<noteq> [])"
| "truthy (Buf b) = True"

definition js_or :: "jsval \<Rightarrow> jsval \<Rightarrow> jsval" where
  "js_or a b = (if truthy a then a else b)"

text \<open>
  \<^verbatim>\<open>v.slice(b, e)\<close> for constant non-negative bounds: on a string it counts code
  units, on a Buffer bytes; other values have no such method.
\<close>

fun slice :: "jsval \<Rightarrow> nat \<Rightarrow> nat \<Rightarrow> error + jsval" where
  "slice (Str s) b e = Inr (Str (take (e - b) (drop b s)))"
| "slice (Buf x) b e = Inr (Buf (take (e - b) (drop b x)))"
| "slice v b e = Inl TypeError"

text \<open>\<^verbatim>\<open>String(n)\<close> of an integral number: its decimal digits (below 10 to the
  21st; from there on the runtime prints an exponent form, which is not modelled).\<close>

fun digits10 :: "nat \<Rightarrow> jstring" where
  "digits10 n = (if n < 10 then [of_nat (48 + n)]
                 else digits10 (n div 10) @ [of_nat (48 + n mod 10)])"

declare digits10.simps [simp del]

definition js_String :: "int \<Rightarrow> jstring" where
  "js_String i = (if i < 0 then 45 # digits10 (nat (- i)) else digits10 (nat i))"

text \<open>
  \<^verbatim>\<open>Buffer.from(string)\<close>: the UTF-8 encoding of the code units. A surrogate pair
  is one code point of four bytes; a surrogate without its partner becomes U+FFFD.
\<close>

fun utf8 :: "jstring \<Rightarrow> bytes" where
  "utf8 [] = []"
| "utf8 [c] =
     (if unat c < 0x80 then [of_nat (unat c)]
      else if unat c < 0x800 then [of_nat (0xC0 + unat c div 64), of_nat (0x80 + unat c mod 64)]
      else if 0xD800 \<le> unat c \<and> unat c < 0xE000 then [0xEF, 0xBF, 0xBD]
      else [of_nat (0xE0 + unat c div 4096), of_nat (0x80 + unat c div 64 mod 64),
            of_nat (0x80 + unat c mod 64)])"
| "utf8 (c # d # cs) =
     (if unat c < 0x80 then of_nat (unat c) # utf8 (d # cs)
      else if unat c < 0x800 then
        of_nat (0xC0 + unat c div 64) # of_nat (0x80 + unat c mod 64) # utf8 (d # cs)
      else if 0xD800 \<le> unat c \<and> unat c < 0xDC00 \<and> 0xDC00 \<le> unat d \<and> unat d < 0xE000 then
        of_nat (0xF0 + (0x10000 + (unat c - 0xD800) * 0x400 + (unat d - 0xDC00)) div 262144) #
        of_nat (0x80 + (0x10000 + (unat c - 0xD800) * 0x400 + (unat d - 0xDC00)) div 4096 mod 64) #
        of_nat (0x80 + (0x10000 + (unat c - 0xD800) * 0x400 + (unat d - 0xDC00)) div 64 mod 64) #
        of_nat (0x80 + (0x10000 + (unat c - 0xD800) * 0x400 + (unat d - 0xDC00)) mod 64) #
        utf8 cs
      else if 0xD800 \<le> unat c \<and> unat c < 0xE000 then 0xEF # 0xBF # 0xBD # utf8 (d # cs)
      else of_nat (0xE0 + unat c div 4096) # of_nat (0x80 + unat c div 64 mod 64) #
           of_nat (0x80 + unat c mod 64) # utf8 (d # cs))"

text \<open>
  The bytes a value stands for where the runtime wants binary data (a stream write,
  \<^verbatim>\<open>Buffer.from\<close>, a hash update): a string is UTF-8 encoded, a Buffer is taken as
  it is, anything else is a TypeError.
\<close>

fun to_bytes :: "jsval \<Rightarrow> error + bytes" where
  "to_bytes (Str s) = Inr (utf8 s)"
| "to_bytes (Buf b) = Inr b"
| "to_bytes v = Inl TypeError"

text \<open>Big-endian integers of a fixed width, and their reading.\<close>

fun be_bytes :: "nat \<Rightarrow> nat \<Rightarrow> bytes" where
  "be_bytes 0 n = []"
| "be_bytes (Suc k) n = be_bytes k (n div 256) @ [of_nat (n mod 256)]"

definition be_decode :: "bytes \<Rightarrow> nat" where
  "be_decode bs = foldl (\<lambda>a b. a * 256 + unat b) 0 bs"

text \<open>\<^verbatim>\<open>Buffer.alloc(n)\<close>: n zero bytes.\<close>

definition alloc :: "nat \<Rightarrow> bytes" where
  "alloc n = replicate n 0"

text \<open>\<^verbatim>\<open>BUF0\<close> of \<^verbatim>\<open>./constants\<close>: the empty Buffer.\<close>

definition BUF0 :: jsval where
  "BUF0 = Buf []"

text \<open>\<^verbatim>\<open>x & 0xffffffff\<close>: the number as a signed 32-bit integer.\<close>

definition to_int32 :: "int \<Rightarrow> int" where
  "to_int32 x = (if x mod 2 ^ 32 < 2 ^ 31 then x mod 2 ^ 32 else x mod 2 ^ 32 - 2 ^ 32)"

section \<open>The Binary Writer\<close>

text \<open>
  Modelled from the spec: the Binary Writer (\<^verbatim>\<open>./writer\<close> is not among the
  sources). It is an append-only builder that keeps an ordered byte sequence; the write
  operations append unsigned 8-, 16-, 32- and 64-bit and signed 32-bit big-endian
  integers, raw bytes, and fields with a 2-byte length prefix. A value beyond the width,
  or of the wrong kind, is rejected (fail fast): the write throws and the chain of calls
  ends there. A string is written as its UTF-8 bytes, as \<^verbatim>\<open>Buffer.from\<close> encodes
  it. \<^verbatim>\<open>read()\<close> returns the accumulated bytes, and the Writer keeps them.
\<close>

type_synonym writer = bytes

definition new_Writer :: writer where
  "new_Writer = []"

definition write_uint :: "nat \<Rightarrow> jsval \<Rightarrow> writer \<Rightarrow> error + writer" where
  "write_uint k v w =
     (case v of
        Num n \<Rightarrow> if 0 \<le> n \<and> n < 256 ^ k then Inr (w @ be_bytes k (nat n)) else Inl RangeError
      | _ \<Rightarrow> Inl TypeError)"

definition writeU8 :: "jsval \<Rightarrow> writer \<Rightarrow> error + writer" where
  "writeU8 = write_uint 1"

definition writeU16 :: "jsval \<Rightarrow> writer \<Rightarrow> error + writer" where
  "writeU16 = write_uint 2"

definition writeU32 :: "jsval \<Rightarrow> writer \<Rightarrow> error + writer" where
  "writeU32 = write_uint 4"

definition writeU64 :: "jsval \<Rightarrow> writer \<Rightarrow> error + writer" where
  "writeU64 = write_uint 8"

definition write32 :: "jsval \<Rightarrow> writer \<Rightarrow> error + writer" where
  "write32 v w =
     (case v of
        Num n \<Rightarrow> if - (2 ^ 31) \<le> n \<and> n < 2 ^ 31 then Inr (w @ be_bytes 4 (nat (n mod 2 ^ 32)))
                 else Inl RangeError
      | _ \<Rightarrow> Inl TypeError)"

definition writeBytes :: "jsval \<Rightarrow> writer \<Rightarrow> error + writer" where
  "writeBytes v w = (case to_bytes v of Inl e \<Rightarrow> Inl e | Inr b \<Rightarrow> Inr (w @ b))"

definition writeTlv :: "jsval \<Rightarrow> writer \<Rightarrow> error + writer" where
  "writeTlv v w =
     (case to_bytes v of
        Inl e \<Rightarrow> Inl e
      | Inr b \<Rightarrow> if length b < 65536 then Inr (w @ be_bytes 2 (length b) @ b) else Inl RangeError)"

text \<open>\<^verbatim>\<open>w.read()\<close>: the bytes read, and the Writer after the call.\<close>

definition read :: "writer \<Rightarrow> bytes \<times> writer" where
  "read w = (w, w)"

text \<open>
  A chain of method calls \<^verbatim>\<open>w.f(a).g(b)\<close>: each call in turn, ending at the first
  one that throws. \<open>with_arg\<close> is a call whose argument expression can itself throw.
\<close>

fun chain :: "(writer \<Rightarrow> error + writer) list \<Rightarrow> writer \<Rightarrow> error + writer" where
  "chain [] w = Inr w"
| "chain (f # fs) w = (case f w of Inl e \<Rightarrow> Inl e | Inr w' \<Rightarrow> chain fs w')"

definition with_arg :: "error + 'a \<Rightarrow> ('a \<Rightarrow> writer \<Rightarrow> error + writer) \<Rightarrow> writer \<Rightarrow> error + writer" where
  "with_arg a f w = (case a of Inl e \<Rightarrow> Inl e | Inr v \<Rightarrow> f v w)"

section \<open>The client and its collaborators\<close>

text \<open>
  The encoders run with \<^verbatim>\<open>this\<close> bound to the client. Its declaration is not among
  the sources; the fields are the ones the encoders read. Numbers are \<open>int\<close>; a field
  that is written as bytes or sliced is a \<open>jsval\<close> (a string or a Buffer, or missing);
  the two fields spliced into a template string are strings.
\<close>

record version =
  release :: jsval
  codename :: jsval
  incremental :: jsval

record device =
  imei :: jstring
  guid :: jsval
  model :: jsval
  brand :: jsval
  os_type :: jsval
  version :: version
  sim :: jsval
  apn :: jsval
  mac_address :: jsval
  android_id :: jsval
  imsi :: jsval
  ip_address :: jsval
  wifi_bssid :: jsval
  wifi_ssid :: jsval
  bootloader :: jsval
  proc_version :: jsval
  fingerprint :: jsval
  boot_id :: jsval
  baseband :: jsval

record apk =
  apk_id :: jsval
  apk_name :: jstring
  ver :: jsval
  apk_sign :: jsval
  sdkver :: jsval
  appid :: int
  subid :: int
  bitmap :: int
  main_sig_map :: int
  sub_sig_map :: int
  ssover :: int
  buildtime :: int

record sig =
  seq :: int
  tgtgt :: bytes
  tgt :: jsval
  ksid :: jsval
  d2 :: jsval
  sig_t104 :: jsval
  sig_t174 :: jsval
  sig_t547 :: jsval
  srm_token :: jsval

record client =
  uin :: int
  device :: device
  apk :: apk
  sig :: sig

text \<open>
  What a call takes from outside the program: the clock (\<^verbatim>\<open>Date.now()\<close>, in
  milliseconds), the bytes the secure random generator hands out during the call, in
  order, and the functions of other modules: the MD5 and SHA-256 digests, the block
  cipher \<^verbatim>\<open>tea.encrypt(data, key)\<close>, the record codec \<^verbatim>\<open>pb.encode\<close> on the
  numbered fields it is given, the signer \<^verbatim>\<open>sign(time, salt)\<close> and the
  proof-of-work solver \<^verbatim>\<open>calcPoW(challenge)\<close>.
\<close>

record env =
  now :: int
  rng :: "nat \<Rightarrow> byte"
  md5 :: "bytes \<Rightarrow> bytes"
  sha256 :: "bytes \<Rightarrow> bytes"
  tea_encrypt :: "bytes \<Rightarrow> bytes \<Rightarrow> bytes"
  pb_encode :: "(nat \<times> jsval) list \<Rightarrow> bytes"
  sign :: "int \<Rightarrow> bytes \<Rightarrow> bytes"
  calcPoW :: "bytes \<Rightarrow> bytes"

text \<open>
  The state a call runs in: the client object, which an assignment to one of its fields
  would change, and the calls made so far to the signer and to the solver.
\<close>

datatype call = Sign int bytes | CalcPoW bytes

record st =
  client :: client
  calls :: "call list"

text \<open>
  An encoder takes the arguments of the call and the state; it returns the Writer it
  built or the exception it threw, with the state it leaves, or does not return
  (\<open>None\<close>).
\<close>

type_synonym encoder = "env \<Rightarrow> jsval list \<Rightarrow> st \<Rightarrow> ((error + writer) \<times> st) option"

text \<open>An encoder that only reads the client.\<close>

definition reads :: "(client \<Rightarrow> error + writer) \<Rightarrow> st \<Rightarrow> ((error + writer) \<times> st) option" where
  "reads f s = Some (f (client s), s)"

text \<open>The i-th argument of a call; a parameter without an argument is undefined.\<close>

definition arg :: "jsval list \<Rightarrow> nat \<Rightarrow> jsval" where
  "arg args i = (if i < length args then args ! i else Undefined)"

definition randomBytes :: "env \<Rightarrow> nat \<Rightarrow> bytes" where
  "randomBytes e n = map (rng e) [0..<n]"

text \<open>\<^verbatim>\<open>(Date.now() / 1000) & 0xffffffff\<close>: the quotient is cut towards zero.\<close>

definition unix_seconds :: "env \<Rightarrow> int" where
  "unix_seconds e = to_int32 (if now e < 0 then - ((- now e) div 1000) else now e div 1000)"

text \<open>\<^verbatim>\<open>md5(data)\<close> of \<^verbatim>\<open>./constants\<close>, on a string or a Buffer.\<close>

definition md5_of :: "env \<Rightarrow> jsval \<Rightarrow> error + jsval" where
  "md5_of e v = (case to_bytes v of Inl x \<Rightarrow> Inl x | Inr b \<Rightarrow> Inr (Buf (md5 e b)))"

text \<open>\<^verbatim>\<open>Buffer.from(v)\<close> as a value.\<close>

definition Buffer_from :: "jsval \<Rightarrow> error + jsval" where
  "Buffer_from v = (case to_bytes v of Inl x \<Rightarrow> Inl x | Inr b \<Rightarrow> Inr (Buf b))"

section \<open>The tag encoders\<close>

text \<open>The entries of \<^verbatim>\<open>map\<close>, in the order of the source, \<open>tNNN\<close> for tag 0xNNN.\<close>

definition t01 :: encoder where
  "t01 e args = reads (\<lambda>c. chain
     [writeU16 (Num 1),
      writeBytes (Buf (randomBytes e 4)),
      writeU32 (Num (uin c)),
      write32 (Num (unix_seconds e)),
      writeBytes (ip_address (device c)),
      writeU16 (Num 0)] new_Writer)"

definition t08 :: encoder where
  "t08 e args = reads (\<lambda>c. chain
     [writeU16 (Num 0), writeU32 (Num 2052), writeU16 (Num 0)] new_Writer)"

definition t16 :: encoder where
  "t16 e args = reads (\<lambda>c. chain
     [writeU32 (Num (ssover (apk c))),
      writeU32 (Num (appid (apk c))),
      writeU32 (Num (subid (apk c))),
      writeBytes (guid (device c)),
      writeTlv (apk_id (apk c)),
      writeTlv (ver (apk c)),
      writeTlv (apk_sign (apk c))] new_Writer)"

definition t18 :: encoder where
  "t18 e args = reads (\<lambda>c. chain
     [writeU16 (Num 1),
      writeU32 (Num 1536),
      writeU32 (Num (appid (apk c))),
      writeU32 (Num 0),
      writeU32 (Num (uin c)),
      writeU16 (Num 0),
      writeU16 (Num 0)] new_Writer)"

definition t1B :: encoder where
  "t1B e args = reads (\<lambda>c. chain
     [writeU32 (Num 0), writeU32 (Num 0), writeU32 (Num 3), writeU32 (Num 4),
      writeU32 (Num 72), writeU32 (Num 2), writeU32 (Num 2), writeU16 (Num 0)] new_Writer)"

definition t1D :: encoder where
  "t1D e args = reads (\<lambda>c. chain
     [writeU8 (Num 1),
      writeU32 (Num (bitmap (apk c))),
      writeU32 (Num 0),
      writeU8 (Num 0),
      writeU32 (Num 0)] new_Writer)"

definition t1F :: encoder where
  "t1F e args = reads (\<lambda>c. chain
     [writeU8 (Num 0),
      writeTlv (Str (str ''android'')),
      writeTlv (Str (str ''7.1.2'')),
      writeU16 (Num 2),
      writeTlv (Str (str ''China Mobile GSM'')),
      writeTlv BUF0,
      writeTlv (Str (str ''wifi''))] new_Writer)"

definition t33 :: encoder where
  "t33 e args = reads (\<lambda>c. chain [writeBytes (guid (device c))] new_Writer)"

definition t35 :: encoder where
  "t35 e args = reads (\<lambda>c. chain [writeU32 (arg args 0)] new_Writer)"

definition t100 :: encoder where
  "t100 e args = reads (\<lambda>c. chain
     [writeU16 (Num 1),
      writeU32 (Num (ssover (apk c))),
      write32 (Num (appid (apk c))),
      writeU32 (js_or (arg args 0) (Num (subid (apk c)))),
      writeU32 (Num 0),
      writeU32 (Num (main_sig_map (apk c)))] new_Writer)"

definition t104 :: encoder where
  "t104 e args = reads (\<lambda>c. chain [writeBytes (sig_t104 (sig c))] new_Writer)"

text \<open>
  Tag 0x106: the body is read out of its Writer, \<^verbatim>\<open>buf.writeUInt32BE(this.uin)\<close>
  throws beyond 32 bits, and \<^verbatim>\<open>Buffer.concat\<close> takes Buffers only.
\<close>

definition t106 :: encoder where
  "t106 e args = reads (\<lambda>c.
     case chain
       [writeU16 (Num 4),
        writeBytes (Buf (randomBytes e 4)),
        writeU32 (Num (ssover (apk c))),
        writeU32 (Num (appid (apk c))),
        writeU32 (Num 0),
        writeU64 (Num (uin c)),
        write32 (Num (unix_seconds e)),
        writeBytes (Buf (alloc 4)),
        writeU8 (Num 1),
        writeBytes (arg args 0),
        writeBytes (Buf (tgtgt (sig c))),
        writeU32 (Num 0),
        writeU8 (Num 1),
        writeBytes (guid (device c)),
        writeU32 (Num (subid (apk c))),
        writeU32 (Num 1),
        writeTlv (Str (js_String (uin c))),
        writeU16 (Num 0)] new_Writer of
       Inl x \<Rightarrow> Inl x
     | Inr w \<Rightarrow>
         (let body = fst (read w) in
          if \<not> (0 \<le> uin c \<and> uin c < 2 ^ 32) then Inl RangeError
          else (case arg args 0 of
                  Buf md5pass \<Rightarrow>
                    (let key = md5 e (md5pass @ alloc 4 @ be_bytes 4 (nat (uin c)))
                     in chain [writeBytes (Buf (tea_encrypt e body key))] new_Writer)
                | _ \<Rightarrow> Inl TypeError)))"

definition t107 :: encoder where
  "t107 e args = reads (\<lambda>c. chain
     [writeU16 (Num 0), writeU8 (Num 0), writeU16 (Num 0), writeU8 (Num 1)] new_Writer)"

definition t108 :: encoder where
  "t108 e args = reads (\<lambda>c. chain
     [writeBytes (js_or (ksid (sig c))
        (Buf (utf8 (str ''|'' @ imei (device c) @ str ''|'' @ apk_name (apk c)))))] new_Writer)"

definition t109 :: encoder where
  "t109 e args = reads (\<lambda>c. chain
     [with_arg (md5_of e (Str (imei (device c)))) writeBytes] new_Writer)"

definition t10a :: encoder where
  "t10a e args = reads (\<lambda>c. chain [writeBytes (tgt (sig c))] new_Writer)"

definition t112 :: encoder where
  "t112 e args = reads (\<lambda>c. chain [writeTlv (Str (js_String (uin c)))] new_Writer)"

definition t116 :: encoder where
  "t116 e args = reads (\<lambda>c. chain
     [writeU8 (Num 0),
      writeU32 (Num (bitmap (apk c))),
      writeU32 (Num (sub_sig_map (apk c))),
      writeU8 (Num 1),
      writeU32 (Num 1600000226)] new_Writer)"

definition t124 :: encoder where
  "t124 e args = reads (\<lambda>c. chain
     [with_arg (slice (os_type (device c)) 0 16) writeTlv,
      with_arg (slice (release (version (device c))) 0 16) writeTlv,
      writeU16 (Num 2),
      with_arg (slice (sim (device c)) 0 16) writeTlv,
      writeU16 (Num 0),
      with_arg (slice (apn (device c)) 0 16) writeTlv] new_Writer)"

definition t128 :: encoder where
  "t128 e args = reads (\<lambda>c. chain
     [writeU16 (Num 0),
      writeU8 (Num 0),
      writeU8 (Num 1),
      writeU8 (Num 0),
      writeU32 (Num 16777216),
      with_arg (slice (model (device c)) 0 32) writeTlv,
      with_arg (slice (guid (device c)) 0 16) writeTlv,
      with_arg (slice (brand (device c)) 0 16) writeTlv] new_Writer)"

definition t141 :: encoder where
  "t141 e args = reads (\<lambda>c. chain
     [writeU16 (Num 1),
      writeTlv (sim (device c)),
      writeU16 (Num 2),
      writeTlv (apn (device c))] new_Writer)"

definition t142 :: encoder where
  "t142 e args = reads (\<lambda>c. chain
     [writeU16 (Num 0),
      with_arg (slice (apk_id (apk c)) 0 32) writeTlv] new_Writer)"

definition t143 :: encoder where
  "t143 e args = reads (\<lambda>c. chain [writeBytes (d2 (sig c))] new_Writer)"

definition t145 :: encoder where
  "t145 e args = reads (\<lambda>c. chain [writeBytes (guid (device c))] new_Writer)"

definition t147 :: encoder where
  "t147 e args = reads (\<lambda>c. chain
     [writeU32 (Num (appid (apk c))),
      writeTlv (ver (apk c)),
      writeTlv (apk_sign (apk c))] new_Writer)"

definition t154 :: encoder where
  "t154 e args = reads (\<lambda>c. chain [writeU32 (Num (seq (sig c) + 1))] new_Writer)"

definition t16a :: encoder where
  "t16a e args = reads (\<lambda>c. chain
     [writeBytes (js_or (arg args 0) (srm_token (sig c)))] new_Writer)"

definition t16e :: encoder where
  "t16e e args = reads (\<lambda>c. chain [writeBytes (model (device c))] new_Writer)"

definition t174 :: encoder where
  "t174 e args = reads (\<lambda>c. chain [writeBytes (sig_t174 (sig c))] new_Writer)"

definition t177 :: encoder where
  "t177 e args = reads (\<lambda>c. chain
     [writeU8 (Num 1),
      writeU32 (Num (buildtime (apk c))),
      writeTlv (sdkver (apk c))] new_Writer)"

definition t17a :: encoder where
  "t17a e args = reads (\<lambda>c. chain [writeU32 (Num 9)] new_Writer)"

definition t17c :: encoder where
  "t17c e args = reads (\<lambda>c. chain [writeTlv (arg args 0)] new_Writer)"

definition t187 :: encoder where
  "t187 e args = reads (\<lambda>c. chain
     [with_arg (md5_of e (mac_address (device c))) writeBytes] new_Writer)"

definition t188 :: encoder where
  "t188 e args = reads (\<lambda>c. chain
     [with_arg (md5_of e (android_id (device c))) writeBytes] new_Writer)"

definition t191 :: encoder where
  "t191 e args = reads (\<lambda>c. chain [writeU8 (Num 0x82)] new_Writer)"

definition t193 :: encoder where
  "t193 e args = reads (\<lambda>c. chain [writeBytes (arg args 0)] new_Writer)"

definition t194 :: encoder where
  "t194 e args = reads (\<lambda>c. chain [writeBytes (imsi (device c))] new_Writer)"

definition t197 :: encoder where
  "t197 e args = reads (\<lambda>c. chain [writeTlv (Buf (alloc 1))] new_Writer)"

definition t198 :: encoder where
  "t198 e args = reads (\<lambda>c. chain [writeTlv (Buf (alloc 1))] new_Writer)"

definition t202 :: encoder where
  "t202 e args = reads (\<lambda>c. chain
     [with_arg (slice (wifi_bssid (device c)) 0 16) writeTlv,
      with_arg (slice (wifi_ssid (device c)) 0 32) writeTlv] new_Writer)"

definition t400 :: encoder where
  "t400 e args = reads (\<lambda>c. chain
     [writeU16 (Num 1),
      writeU64 (Num (uin c)),
      writeBytes (guid (device c)),
      writeBytes (Buf (randomBytes e 16)),
      write32 (Num 1),
      write32 (Num 16),
      write32 (Num (unix_seconds e)),
      writeBytes (Buf (alloc 0))] new_Writer)"

definition t401 :: encoder where
  "t401 e args = reads (\<lambda>c. chain [writeBytes (Buf (randomBytes e 16))] new_Writer)"

text \<open>
  Tag 0x511. A \<^verbatim>\<open>Set\<close> keeps each element once, in the order of first insertion;
  \<^verbatim>\<open>for (let v of domains)\<close> visits them in that order.
\<close>

definition Set_of :: "'a list \<Rightarrow> 'a list" where
  "Set_of xs = fold (\<lambda>x acc. if x \<in> set acc then acc else acc @ [x]) xs []"

fun for_of :: "'a list \<Rightarrow> ('a \<Rightarrow> writer \<Rightarrow> error + writer) \<Rightarrow> writer \<Rightarrow> error + writer" where
  "for_of [] body w = Inr w"
| "for_of (v # vs) body w = (case body v w of Inl x \<Rightarrow> Inl x | Inr w' \<Rightarrow> for_of vs body w')"

definition domains :: "jstring list" where
  "domains = Set_of (map str
     [''aq.qq.com'',
      ''connect.qq.com'',
      ''docs.qq.com'',
      ''game.qq.com'',
      ''gamecenter.qq.com'',
      ''haoma.qq.com'',
      ''id.qq.com'',
      ''kg.qq.com'',
      ''mail.qq.com'',
      ''mma.qq.com'',
      ''office.qq.com'',
      ''openmobile.qq.com'',
      ''qqweb.qq.com'',
      ''qun.qq.com'',
      ''qzone.qq.com'',
      ''ti.qq.com'',
      ''v.qq.com'',
      ''vip.qq.com'',
      ''y.qq.com''])"

definition t511 :: encoder where
  "t511 e args = reads (\<lambda>c.
     case chain [writeU16 (Num (int (length domains)))] new_Writer of
       Inl x \<Rightarrow> Inl x
     | Inr stream \<Rightarrow> for_of domains (\<lambda>v. chain [writeU8 (Num 1), writeTlv (Str v)]) stream)"

definition t516 :: encoder where
  "t516 e args = reads (\<lambda>c. chain [writeU32 (Num 0)] new_Writer)"

definition t521 :: encoder where
  "t521 e args = reads (\<lambda>c. chain [writeU32 (arg args 0), writeU16 (Num 0)] new_Writer)"

definition t525 :: encoder where
  "t525 e args = reads (\<lambda>c. chain
     [writeU16 (Num 1), writeU16 (Num 0x536), writeTlv (Buf [2, 1, 0])] new_Writer)"

definition t523 :: encoder where
  "t523 e args = reads (\<lambda>c. chain [writeTlv (Buf [1, 0])] new_Writer)"

definition t52d :: encoder where
  "t52d e args = reads (\<lambda>c.
     let d = device c;
         buf = pb_encode e
           [(1, bootloader d),
            (2, proc_version d),
            (3, codename (version d)),
            (4, incremental (version d)),
            (5, fingerprint d),
            (6, boot_id d),
            (7, android_id d),
            (8, baseband d),
            (9, incremental (version d))]
     in chain [writeBytes (Buf buf)] new_Writer)"

definition t542 :: encoder where
  "t542 e args = reads (\<lambda>c. chain [writeBytes (Buf [0x4A, 0x02, 0x60, 0x01])] new_Writer)"

text \<open>
  Tag 0x544, with parameters \<^verbatim>\<open>v\<close>, \<^verbatim>\<open>subCmd\<close> and \<^verbatim>\<open>signData = BUF0\<close>
  (the default stands in for an undefined argument). The call of the signer is recorded
  in the state. The version is compared as a number; for an argument of another kind
  the loose comparison of the source converts it first, which is not modelled.
\<close>

definition t544 :: encoder where
  "t544 e args s =
     (let v = arg args 0;
          subCmd = arg args 1;
          signData = (if arg args 2 = Undefined then BUF0 else arg args 2);
          c = client s
      in if v = Num (- 1) then Some (chain [writeBytes signData] new_Writer, s)
         else
           (case chain
              (if v = Num 2 then
                 [writeU32 (Num 0),
                  writeTlv (guid (device c)),
                  with_arg (Buffer_from (sdkver (apk c))) writeTlv,
                  writeU32 subCmd,
                  writeU32 (Num 0)]
               else
                 [writeU64 (Num (uin c)),
                  writeTlv (guid (device c)),
                  with_arg (Buffer_from (sdkver (apk c))) writeTlv,
                  writeU32 subCmd]) new_Writer of
              Inl x \<Rightarrow> Some (Inl x, s)
            | Inr salt \<Rightarrow>
                Some (chain [writeBytes (Buf (sign e (now e) (fst (read salt))))] new_Writer,
                      s\<lparr>calls := calls s @ [Sign (now e) (fst (read salt))]\<rparr>)))"

definition t545 :: encoder where
  "t545 e args = reads (\<lambda>c. chain
     [with_arg (md5_of e (js_or (arg args 0) (Str (imei (device c))))) writeBytes] new_Writer)"

definition t547 :: encoder where
  "t547 e args = reads (\<lambda>c. chain [writeBytes (sig_t547 (sig c))] new_Writer)"

subsection \<open>Tag 0x548, the proof of work\<close>

text \<open>Hexadecimal text: \<^verbatim>\<open>buf.toString("hex")\<close>, \<^verbatim>\<open>BigInt("0x" + s)\<close>,
  \<^verbatim>\<open>n.toString(16)\<close>, \<^verbatim>\<open>s.padStart(n, c)\<close> and \<^verbatim>\<open>Buffer.from(s, "hex")\<close>
  (which decodes pairs of digits up to the first that is none).\<close>

definition hexdigit :: "nat \<Rightarrow> char" where
  "hexdigit n = ''0123456789abcdef'' ! n"

definition hexval :: "char \<Rightarrow> nat option" where
  "hexval c =
     (let n = (of_char c :: nat)
      in if 48 \<le> n \<and> n \<le> 57 then Some (n - 48)
         else if 97 \<le> n \<and> n \<le> 102 then Some (n - 87)
         else if 65 \<le> n \<and> n \<le> 70 then Some (n - 55)
         else None)"

definition toString_hex :: "bytes \<Rightarrow> string" where
  "toString_hex bs = concat (map (\<lambda>b. [hexdigit (unat b div 16), hexdigit (unat b mod 16)]) bs)"

fun hex_value :: "nat \<Rightarrow> string \<Rightarrow> nat option" where
  "hex_value a [] = Some a"
| "hex_value a (c # cs) = (case hexval c of None \<Rightarrow> None | Some d \<Rightarrow> hex_value (a * 16 + d) cs)"

definition BigInt_hex :: "string \<Rightarrow> error + nat" where
  "BigInt_hex s =
     (if s = [] then Inl SyntaxError
      else case hex_value 0 s of None \<Rightarrow> Inl SyntaxError | Some n \<Rightarrow> Inr n)"

fun toString16 :: "nat \<Rightarrow> string" where
  "toString16 n = (if n < 16 then [hexdigit n] else toString16 (n div 16) @ [hexdigit (n mod 16)])"

declare toString16.simps [simp del]

definition padStart :: "nat \<Rightarrow> char \<Rightarrow> string \<Rightarrow> string" where
  "padStart n c s = replicate (n - length s) c @ s"

fun from_hex :: "string \<Rightarrow> bytes" where
  "from_hex (a # b # cs) =
     (case (hexval a, hexval b) of
        (Some x, Some y) \<Rightarrow> of_nat (x * 16 + y) # from_hex cs
      | _ \<Rightarrow> [])"
| "from_hex cs = []"

text \<open>
  \<^verbatim>\<open>while (src[0] === 0 || src[0] === 255) src[0] = crypto.randomBytes(1)[0]\<close>:
  the loop draws the next random byte, at position \<open>i\<close> of the generator's output,
  for as long as the first byte of the seed is 0 or 255. It need not end.
\<close>

partial_function (option) resample :: "(nat \<Rightarrow> byte) \<Rightarrow> nat \<Rightarrow> bytes \<Rightarrow> bytes option" where
  "resample r i src =
     (if src ! 0 = 0 \<or> src ! 0 = 255 then resample r (Suc i) (src[0 := r i]) else Some src)"

text \<open>Lines 389 to 392: the target \<^verbatim>\<open>dst\<close> of a seed \<^verbatim>\<open>src\<close>.\<close>

definition pow_dst :: "bytes \<Rightarrow> error + bytes" where
  "pow_dst src =
     (case BigInt_hex (toString_hex src) of
        Inl x \<Rightarrow> Inl x
      | Inr srcNum \<Rightarrow>
          (let cnt = 10000;
               dstNum = srcNum + cnt
           in Inr (from_hex (padStart 256 CHR ''0'' (toString16 dstNum)))))"

text \<open>Lines 393 to 407: the digest \<^verbatim>\<open>tgt\<close> and the challenge \<^verbatim>\<open>t546\<close>.\<close>

definition pow_t546 :: "env \<Rightarrow> bytes \<Rightarrow> bytes \<Rightarrow> error + bytes" where
  "pow_t546 e src dst =
     (let tgt = sha256 e dst
      in case chain
           [writeU8 (Num 1),
            writeU8 (Num 2),
            writeU8 (Num 1),
            writeU8 (Num 2),
            writeU16 (Num 10),
            writeBytes (Buf [0, 0]),
            writeTlv (Buf src),
            writeTlv (Buf tgt)] new_Writer of
           Inl x \<Rightarrow> Inl x
         | Inr writer \<Rightarrow>
             (case read writer of
                (cpy, writer') \<Rightarrow>
                  (case chain [writeBytes (Buf cpy), writeTlv (Buf cpy)] writer' of
                     Inl x \<Rightarrow> Inl x
                   | Inr writer'' \<Rightarrow> Inr (fst (read writer'')))))"

definition t548 :: encoder where
  "t548 e args s =
     (case resample (rng e) 128 (randomBytes e 128) of
        None \<Rightarrow> None
      | Some src \<Rightarrow>
          (case pow_dst src of
             Inl x \<Rightarrow> Some (Inl x, s)
           | Inr dst \<Rightarrow>
               (case pow_t546 e src dst of
                  Inl x \<Rightarrow> Some (Inl x, s)
                | Inr t546 \<Rightarrow>
                    Some (chain [writeBytes (Buf (calcPoW e t546))] new_Writer,
                          s\<lparr>calls := calls s @ [CalcPoW t546]\<rparr>))))"

section \<open>The registry and the packer\<close>

text \<open>Sequencing of calls that can throw or not return.\<close>

definition and_then ::
  "((error + 'a) \<times> st) option \<Rightarrow> ('a \<Rightarrow> st \<Rightarrow> ((error + 'b) \<times> st) option)
     \<Rightarrow> ((error + 'b) \<times> st) option" where
  "and_then m f =
     (case m of
        None \<Rightarrow> None
      | Some (Inl x, s) \<Rightarrow> Some (Inl x, s)
      | Some (Inr a, s) \<Rightarrow> f a s)"

definition unshift :: "bytes \<Rightarrow> writer \<Rightarrow> writer" where
  "unshift b w = b @ w"

text \<open>
  \<^verbatim>\<open>packTlv\<close> over a registry \<open>reg\<close>. A tag without an entry makes
  \<^verbatim>\<open>map[tag].apply\<close> a TypeError; \<^verbatim>\<open>writeUInt16BE\<close> throws a RangeError on a
  value beyond 16 bits.
\<close>

definition packTlv_with ::
  "(int \<Rightarrow> encoder option) \<Rightarrow> env \<Rightarrow> int \<Rightarrow> jsval list \<Rightarrow> st \<Rightarrow> ((error + bytes) \<times> st) option" where
  "packTlv_with reg e tag args s =
     (case reg tag of
        None \<Rightarrow> Some (Inl TypeError, s)
      | Some f \<Rightarrow>
          and_then (f e args s) (\<lambda>t s'.
            if \<not> length t < 65536 then Some (Inl RangeError, s')
            else let lbuf = be_bytes 2 (length t);
                     t1 = unshift lbuf t
                 in if \<not> (0 \<le> tag \<and> tag < 65536) then Some (Inl RangeError, s')
                    else let tbuf = be_bytes 2 (nat tag);
                             t2 = unshift tbuf t1
                         in Some (Inr (fst (read t2)), s')))"

text \<open>
  The registry is tied in two steps, since the encoder of tag 0x144 calls the packer:
  \<open>map_leaf\<close> holds the encoders that do not, and \<open>t144\<close> packs its five inner tags
  over it (lemma \<open>packTlv_leaf\<close> below: on every other tag than 0x144 this is the
  packer over the whole registry). The five blocks are packed in the order of the
  source and then written; the source packs each one just before writing it, which
  comes to the same, since the writes of the count and of a Buffer do not throw.
\<close>

definition map_leaf :: "int \<Rightarrow> encoder option" where
  "map_leaf = map_of
     [(0x01, t01), (0x08, t08), (0x16, t16), (0x18, t18), (0x1B, t1B), (0x1D, t1D),
      (0x1F, t1F), (0x33, t33), (0x35, t35), (0x100, t100), (0x104, t104), (0x106, t106),
      (0x107, t107), (0x108, t108), (0x109, t109), (0x10a, t10a), (0x112, t112),
      (0x116, t116), (0x124, t124), (0x128, t128), (0x141, t141), (0x142, t142),
      (0x143, t143), (0x145, t145), (0x147, t147), (0x154, t154), (0x16a, t16a),
      (0x16e, t16e), (0x174, t174), (0x177, t177), (0x17a, t17a), (0x17c, t17c),
      (0x187, t187), (0x188, t188), (0x191, t191), (0x193, t193), (0x194, t194),
      (0x197, t197), (0x198, t198), (0x202, t202), (0x400, t400), (0x401, t401),
      (0x511, t511), (0x516, t516), (0x521, t521), (0x525, t525), (0x523, t523),
      (0x52d, t52d), (0x542, t542), (0x544, t544), (0x545, t545), (0x547, t547),
      (0x548, t548)]"

definition t144 :: encoder where
  "t144 e args s =
     and_then (packTlv_with map_leaf e 0x109 [] s) (\<lambda>b109 s1.
     and_then (packTlv_with map_leaf e 0x52d [] s1) (\<lambda>b52d s2.
     and_then (packTlv_with map_leaf e 0x124 [] s2) (\<lambda>b124 s3.
     and_then (packTlv_with map_leaf e 0x128 [] s3) (\<lambda>b128 s4.
     and_then (packTlv_with map_leaf e 0x16e [] s4) (\<lambda>b16e s5.
       case chain
         [writeU16 (Num 5),
          writeBytes (Buf b109),
          writeBytes (Buf b52d),
          writeBytes (Buf b124),
          writeBytes (Buf b128),
          writeBytes (Buf b16e)] new_Writer of
         Inl x \<Rightarrow> Some (Inl x, s5)
       | Inr body \<Rightarrow>
           Some (chain [writeBytes (Buf (tea_encrypt e (fst (read body))
                                      (tgtgt (sig (client s5)))))] new_Writer, s5))))))"

definition map_tlv :: "int \<Rightarrow> encoder option" where
  "map_tlv = map_leaf(0x144 \<mapsto> t144)"

definition packTlv :: "env \<Rightarrow> int \<Rightarrow> jsval list \<Rightarrow> st \<Rightarrow> ((error + bytes) \<times> st) option" where
  "packTlv = packTlv_with map_tlv"

section \<open>A sample client\<close>

text \<open>
  Concrete values to run the encoders on. The functions of the sample environment are
  stand-ins of the right shape for the digests, the cipher, the record codec, the signer
  and the solver, which the encoders only call.
\<close>

definition example_device :: device where
  "example_device =
     \<lparr>imei = str ''861234567890123'',
      guid = Buf [158, 43, 196, 87, 16, 243, 106, 141, 33, 184, 79, 230, 5, 124, 217, 50],
      model = Str (str ''Pixel 4''),
      brand = Str (str ''google''),
      os_type = Str (str ''android''),
      version = \<lparr>release = Str (str ''10''), codename = Str (str ''REL''),
                  incremental = Str (str ''5891938'')\<rparr>,
      sim = Str (str ''T-Mobile''),
      apn = Str (str ''wifi''),
      mac_address = Str (str ''00:50:56:C0:00:08''),
      android_id = Str (str ''a1b2c3d4e5f60718''),
      imsi = Buf [0, 1, 2, 3],
      ip_address = Buf [10, 0, 0, 2],
      wifi_bssid = Str (str ''00:50:56:C0:00:09''),
      wifi_ssid = Str (str ''home''),
      bootloader = Str (str ''U-boot''),
      proc_version = Str (str ''Linux version 4.19''),
      fingerprint = Str (str ''google/flame''),
      boot_id = Str (str ''b1''),
      baseband = Str []\<rparr>"

definition example_apk :: apk where
  "example_apk =
     \<lparr>apk_id = Str (str ''com.tencent.mobileqq''),
      apk_name = str ''A8.9.63.11390'',
      ver = Str (str ''8.9.63.11390''),
      apk_sign = Buf [0xA6, 0xB7, 0x45, 0xBF],
      sdkver = Str (str ''6.0.0.2546''),
      appid = 16,
      subid = 537164840,
      bitmap = 150470524,
      main_sig_map = 16724722,
      sub_sig_map = 66560,
      ssover = 20,
      buildtime = 1685069178\<rparr>"

definition example_sig :: sig where
  "example_sig =
     \<lparr>seq = 100,
      tgtgt = [16, 15, 14, 13, 12, 11, 10, 9, 8, 7, 6, 5, 4, 3, 2, 1],
      tgt = Buf [],
      ksid = Undefined,
      d2 = Buf [],
      sig_t104 = Buf [],
      sig_t174 = Buf [],
      sig_t547 = Buf [],
      srm_token = Buf []\<rparr>"

definition example_st :: st where
  "example_st =
     \<lparr>client = \<lparr>uin = 10001, device = example_device, apk = example_apk, sig = example_sig\<rparr>,
      calls = []\<rparr>"

definition example_env :: env where
  "example_env =
     \<lparr>now = 1700000000123,
      rng = (\<lambda>i. of_nat i),
      md5 = (\<lambda>b. take 16 (b @ alloc 16)),
      sha256 = (\<lambda>b. alloc 32),
      tea_encrypt = (\<lambda>d k. k @ d),
      pb_encode = (\<lambda>fs. map (\<lambda>(n, v). of_nat n) fs),
      sign = (\<lambda>t salt. salt),
      calcPoW = (\<lambda>c. take 4 c)\<rparr>"

text \<open>The sample client with a model name of 40 ASCII characters; with an OS type of
  24 ASCII characters beside an access point name of 17 times the letter U+00E9, which
  is two bytes in UTF-8; and with a model name of 33 times that letter.\<close>

definition long_model_st :: st where
  "long_model_st =
     example_st\<lparr>client := (client example_st)\<lparr>device :=
       example_device\<lparr>model := Str (str ''Galaxy Enterprise Edition 5G Dual SIM XL'')\<rparr>\<rparr>\<rparr>"

definition mixed_fields_st :: st where
  "mixed_fields_st =
     example_st\<lparr>client := (client example_st)\<lparr>device :=
       example_device\<lparr>os_type := Str (str ''android-with-a-long-name''),
                        apn := Str (replicate 17 0xE9)\<rparr>\<rparr>\<rparr>"

definition accented_model_st :: st where
  "accented_model_st =
     example_st\<lparr>client := (client example_st)\<lparr>device :=
       example_device\<lparr>model := Str (replicate 33 0xE9)\<rparr>\<rparr>\<rparr>"

text \<open>
  The seed the sample environment yields (its generator hands out the bytes 0, 1, 2 and
  so on: the first byte of the seed is 0 and is drawn again, as 128), and the buffer that
  tag 0x548 assembles from it: header, seed and digest.
\<close>

definition example_seed :: bytes where
  "example_seed = (randomBytes example_env 128)[0 := 128]"

definition example_assembled :: bytes where
  "example_assembled =
     [1, 2, 1, 2, 0, 10, 0, 0] @ [0, 128] @ example_seed @ [0, 32] @
     sha256 example_env (be_bytes 128 (be_decode example_seed + 10000))"

section \<open>Notions of the specification\<close>

text \<open>
  What the specification says of a device field with a cap: the field written is the
  2-byte length followed by the left-most \<open>cap\<close> bytes of the input. A field value is
  counted in bytes when it is a Buffer, or a string of ASCII characters only; its bytes
  are the ones it is written as.
\<close>

definition truncated_field :: "nat \<Rightarrow> bytes \<Rightarrow> bytes" where
  "truncated_field cap b = be_bytes 2 (length (take cap b)) @ take cap b"

fun bytes_counted :: "jsval \<Rightarrow> bool" where
  "bytes_counted (Buf b) = True"
| "bytes_counted (Str s) = list_all (\<lambda>c. unat c < 0x80) s"
| "bytes_counted v = False"

fun field_bytes :: "jsval \<Rightarrow> bytes" where
  "field_bytes (Buf b) = b"
| "field_bytes (Str s) = utf8 s"
| "field_bytes v = []"

text \<open>
  The rule for a capped field as the code has it: the value is cut to its left-most
  \<open>cap\<close> elements, bytes of a Buffer and code units of a string, and what is left is
  written with its 2-byte length; a value that is neither has no cut. \<open>in_order\<close> puts
  the parts of a payload one after the other, up to the first that fails.
\<close>

definition length_prefixed :: "bytes \<Rightarrow> bytes" where
  "length_prefixed b = be_bytes 2 (length b) @ b"

fun cut_field :: "nat \<Rightarrow> jsval \<Rightarrow> error + bytes" where
  "cut_field cap (Str s) = Inr (length_prefixed (utf8 (take cap s)))"
| "cut_field cap (Buf b) = Inr (length_prefixed (take cap b))"
| "cut_field cap v = Inl TypeError"

fun in_order :: "(error + bytes) list \<Rightarrow> error + bytes" where
  "in_order [] = Inr []"
| "in_order (Inl x # ps) = Inl x"
| "in_order (Inr b # ps) = (case in_order ps of Inl x \<Rightarrow> Inl x | Inr bs \<Rightarrow> Inr (b @ bs))"

section \<open>Big-endian fields\<close>

lemma length_be_bytes [simp]: "length (be_bytes k n) = k"
  by (induction k arbitrary: n) auto

lemma be_bytes_numeral [simp]:
  "be_bytes (numeral k) n = be_bytes (pred_numeral k) (n div 256) @ [of_nat (n mod 256)]"
  by (simp only: numeral_eq_Suc be_bytes.simps)

lemma be_bytes_1 [simp]: "be_bytes 1 n = [of_nat (n mod 256)]"
  using be_bytes.simps(2) [of 0 n] by simp

lemma be_decode_snoc: "be_decode (xs @ [b]) = be_decode xs * 256 + unat b"
  by (simp add: be_decode_def)

lemma be_decode_be_bytes: "n < 256 ^ k \<Longrightarrow> be_decode (be_bytes k n) = n"
proof (induction k arbitrary: n)
  case 0
  then show ?case by (simp add: be_decode_def)
next
  case (Suc k)
  have "n div 256 < 256 ^ k" using Suc.prems by (simp add: less_mult_imp_div_less)
  then have "be_decode (be_bytes k (n div 256)) = n div 256" by (rule Suc.IH)
  moreover have "unat (of_nat (n mod 256) :: byte) = n mod 256"
    by (simp add: unat_of_nat)
  ultimately show ?case by (simp add: be_decode_snoc)
qed

section \<open>The packer\<close>

lemma map_tlv_range: "map_tlv tag = Some f \<Longrightarrow> 0 \<le> tag \<and> tag < 65536"
  by (auto simp: map_tlv_def map_leaf_def split: if_splits)

lemma packTlv_ok:
  assumes "map_tlv tag = Some f" and "f e args s = Some (Inr p, s')" and "length p < 65536"
  shows "packTlv e tag args s = Some (Inr (be_bytes 2 (nat tag) @ be_bytes 2 (length p) @ p), s')"
  using assms map_tlv_range [OF assms(1)]
  by (simp add: packTlv_def packTlv_with_def and_then_def unshift_def read_def)

lemma packTlv_big:
  assumes "map_tlv tag = Some f" and "f e args s = Some (Inr p, s')" and "\<not> length p < 65536"
  shows "packTlv e tag args s = Some (Inl RangeError, s')"
  using assms
  by (simp add: packTlv_def packTlv_with_def and_then_def unshift_def read_def)

lemma packTlv_unknown: "map_tlv tag = None \<Longrightarrow> packTlv e tag args s = Some (Inl TypeError, s)"
  by (simp add: packTlv_def packTlv_with_def)

lemma packTlv_leaf:
  "tag \<noteq> 0x144 \<Longrightarrow> packTlv_with map_leaf e tag args s = packTlv e tag args s"
  by (simp add: packTlv_def packTlv_with_def map_tlv_def)

text \<open>
  Claim C1, as amended. For a tag of the registry and arguments on which its encoder
  returns a payload of at most 65535 bytes, \<open>packTlv\<close> returns a buffer of 4 bytes more
  than the payload: the first two bytes read big-endian as the tag, the next two as the
  length of the payload, and the rest is the payload unchanged. (The state is the one
  the encoder left.)
\<close>

theorem packTlv_layout:
  assumes "map_tlv tag = Some f" and "f e args s = Some (Inr payload, s')"
    and "length payload \<le> 65535"
  shows "\<exists>buf. packTlv e tag args s = Some (Inr buf, s') \<and>
           length buf = 4 + length payload \<and>
           int (be_decode (take 2 buf)) = tag \<and>
           be_decode (take 2 (drop 2 buf)) = length payload \<and>
           drop 4 buf = payload"
proof -
  let ?buf = "be_bytes 2 (nat tag) @ be_bytes 2 (length payload) @ payload"
  have rng: "0 \<le> tag \<and> tag < 65536" using assms(1) by (rule map_tlv_range)
  have len: "length payload < 65536" using assms(3) by simp
  have "packTlv e tag args s = Some (Inr ?buf, s')"
    using assms(1,2) len by (rule packTlv_ok)
  moreover have "length ?buf = 4 + length payload" by simp
  moreover have "int (be_decode (take 2 ?buf)) = tag"
  proof -
    have "nat tag < 65536" using rng by linarith
    then have "nat tag < 256 ^ 2" by simp
    then have "be_decode (be_bytes 2 (nat tag)) = nat tag" by (rule be_decode_be_bytes)
    then show ?thesis using rng by simp
  qed
  moreover have "be_decode (take 2 (drop 2 ?buf)) = length payload"
  proof -
    have "length payload < 256 ^ 2" using len by simp
    then have "be_decode (be_bytes 2 (length payload)) = length payload"
      by (rule be_decode_be_bytes)
    then show ?thesis by simp
  qed
  moreover have "drop 4 ?buf = payload" by simp
  ultimately show ?thesis by blast
qed

lemma t154_example: "t154 example_env [] example_st = Some (Inr [0, 0, 0, 101], example_st)"
  by (simp add: t154_def reads_def example_st_def example_sig_def writeU32_def write_uint_def
      new_Writer_def)

theorem packTlv_layout_witness:
  "map_tlv 0x154 = Some t154 \<and>
   t154 example_env [] example_st = Some (Inr [0, 0, 0, 101], example_st) \<and>
   length [0, 0, 0, 101 :: byte] \<le> 65535 \<and>
   (\<exists>buf. packTlv example_env 0x154 [] example_st = Some (Inr buf, example_st) \<and>
          length buf = 4 + length [0, 0, 0, 101 :: byte] \<and>
          int (be_decode (take 2 buf)) = 0x154 \<and>
          be_decode (take 2 (drop 2 buf)) = length [0, 0, 0, 101 :: byte] \<and>
          drop 4 buf = [0, 0, 0, 101])"
proof -
  have h1: "map_tlv 0x154 = Some t154" by (simp add: map_tlv_def map_leaf_def)
  have h3: "length [0, 0, 0, 101 :: byte] \<le> 65535" by simp
  show ?thesis using h1 t154_example h3 packTlv_layout [OF h1 t154_example h3] by blast
qed

text \<open>
  Claim C1 as stated fails on a payload of 65536 bytes: the encoder of tag 0x193 accepts
  such a ticket and returns it as its payload, and \<open>packTlv\<close> then ends in the
  RangeError of the 16-bit length write instead of returning a buffer.
\<close>

lemma t193_Buf: "t193 e [Buf b] s = Some (Inr b, s)"
  by (simp add: t193_def reads_def arg_def writeBytes_def new_Writer_def)

theorem packTlv_layout_counterexample:
  "map_tlv 0x193 = Some t193 \<and>
   t193 example_env [Buf (replicate 65536 0)] example_st =
     Some (Inr (replicate 65536 0), example_st) \<and>
   packTlv example_env 0x193 [Buf (replicate 65536 0)] example_st =
     Some (Inl RangeError, example_st)"
proof -
  have h1: "map_tlv 0x193 = Some t193" by (simp add: map_tlv_def map_leaf_def)
  have h2: "t193 example_env [Buf (replicate 65536 0)] example_st =
     Some (Inr (replicate 65536 0), example_st)"
    by (rule t193_Buf)
  have h3: "\<not> length (replicate 65536 (0::byte)) < 65536"
    by (simp only: length_replicate)
  show ?thesis by (intro conjI) (rule h1, rule h2, rule packTlv_big [OF h1 h2 h3])
qed

text \<open>
  Claim C5, as amended. For a tag that has no entry in the registry, \<open>packTlv\<close> fails
  with the runtime's TypeError (the call of a method on the missing entry), and leaves
  the state as it was. The source has no error of its own for an unknown tag.
\<close>

theorem packTlv_unknown_tag:
  "map_tlv tag = None \<Longrightarrow> packTlv e tag args s = Some (Inl TypeError, s)"
  by (rule packTlv_unknown)

theorem packTlv_unknown_tag_witness:
  "map_tlv 0x02 = None \<and> packTlv example_env 0x02 [] example_st = Some (Inl TypeError, example_st)"
proof -
  have h: "map_tlv 0x02 = None" by (simp add: map_tlv_def map_leaf_def)
  show ?thesis using h packTlv_unknown_tag [OF h] by simp
qed

text \<open>
  Claim C5 as stated fails at tag 0x02, which has no encoder: the failure of \<open>packTlv\<close>
  there is not an UnknownTagError.
\<close>

theorem packTlv_unknown_tag_counterexample:
  "map_tlv 0x02 = None \<and>
   packTlv example_env 0x02 [] example_st \<noteq> Some (Inl UnknownTagError, example_st)"
proof -
  have h: "map_tlv 0x02 = None" by (simp add: map_tlv_def map_leaf_def)
  show ?thesis using h packTlv_unknown [OF h] by simp
qed

section \<open>The salted signature, tag 0x544\<close>

text \<open>
  Claim C9. Called with version -1 and a signature \<open>signData\<close>, the encoder of tag 0x544
  returns exactly \<open>signData\<close> as its payload, whatever the sub-command, the clock and
  the signer are, and leaves the state as it was: the client is unchanged and no call of
  the signer is recorded, so no salt has been handed to it.
\<close>

theorem t544_passthrough:
  "t544 e [Num (- 1), subCmd, Buf signData] s = Some (Inr signData, s)"
  by (simp add: t544_def arg_def writeBytes_def new_Writer_def)

section \<open>The encoders only read the client\<close>

lemmas reads_encoder_defs =
  t01_def t08_def t16_def t18_def t1B_def t1D_def t1F_def t33_def t35_def t100_def t104_def
  t106_def t107_def t108_def t109_def t10a_def t112_def t116_def t124_def t128_def t141_def
  t142_def t143_def t145_def t147_def t154_def t16a_def t16e_def t174_def t177_def t17a_def
  t17c_def t187_def t188_def t191_def t193_def t194_def t197_def t198_def t202_def t400_def
  t401_def t511_def t516_def t521_def t525_def t523_def t52d_def t542_def t545_def t547_def

lemma reads_state: "reads g s = Some (r, s') \<Longrightarrow> s' = s"
  by (simp add: reads_def)

lemma reads_client: "reads g s = Some (r, s') \<Longrightarrow> client s' = client s"
  by (simp add: reads_def)

lemma reading_encoders:
  "list_all (\<lambda>f. \<forall>e args s r s'. f e args s = Some (r, s') \<longrightarrow> client s' = client s)
     [t01, t08, t16, t18, t1B, t1D, t1F, t33, t35, t100, t104, t106, t107, t108, t109,
      t10a, t112, t116, t124, t128, t141, t142, t143, t145, t147, t154, t16a, t16e, t174,
      t177, t17a, t17c, t187, t188, t191, t193, t194, t197, t198, t202, t400, t401, t511,
      t516, t521, t525, t523, t52d, t542, t545, t547]"
  unfolding list.pred_inject reads_encoder_defs
  by (intro conjI allI impI; (erule reads_client | simp))

lemma t544_client: "t544 e args s = Some (r, s') \<Longrightarrow> client s' = client s"
  by (auto simp: t544_def Let_def split: if_splits sum.splits)

lemma t548_client: "t548 e args s = Some (r, s') \<Longrightarrow> client s' = client s"
  by (auto simp: t548_def split: option.splits sum.splits)

lemma map_leaf_client:
  assumes "map_leaf tag = Some f" and "f e args s = Some (r, s')"
  shows "client s' = client s"
proof -
  have "(tag, f) \<in> set
     [(0x01, t01), (0x08, t08), (0x16, t16), (0x18, t18), (0x1B, t1B), (0x1D, t1D),
      (0x1F, t1F), (0x33, t33), (0x35, t35), (0x100, t100), (0x104, t104), (0x106, t106),
      (0x107, t107), (0x108, t108), (0x109, t109), (0x10a, t10a), (0x112, t112),
      (0x116, t116), (0x124, t124), (0x128, t128), (0x141, t141), (0x142, t142),
      (0x143, t143), (0x145, t145), (0x147, t147), (0x154, t154), (0x16a, t16a),
      (0x16e, t16e), (0x174, t174), (0x177, t177), (0x17a, t17a), (0x17c, t17c),
      (0x187, t187), (0x188, t188), (0x191, t191), (0x193, t193), (0x194, t194),
      (0x197, t197), (0x198, t198), (0x202, t202), (0x400, t400), (0x401, t401),
      (0x511, t511), (0x516, t516), (0x521, t521), (0x525, t525), (0x523, t523),
      (0x52d, t52d), (0x542, t542), (0x544, t544), (0x545, t545), (0x547, t547),
      (0x548, t548)]"
    using assms(1) unfolding map_leaf_def by (rule map_of_SomeD)
  then have "f \<in> set [t01, t08, t16, t18, t1B, t1D, t1F, t33, t35, t100, t104, t106, t107, t108, t109,
      t10a, t112, t116, t124, t128, t141, t142, t143, t145, t147, t154, t16a, t16e, t174,
      t177, t17a, t17c, t187, t188, t191, t193, t194, t197, t198, t202, t400, t401, t511,
      t516, t521, t525, t523, t52d, t542, t545, t547] \<or> f = t544 \<or> f = t548"
    unfolding list.set by blast
  then show ?thesis
    using reading_encoders assms(2) t544_client t548_client
    unfolding list_all_iff by blast
qed

lemma and_then_SomeD:
  assumes "and_then m k = Some (r, s')"
  shows "(\<exists>x. m = Some (Inl x, s') \<and> r = Inl x) \<or> (\<exists>a s1. m = Some (Inr a, s1) \<and> k a s1 = Some (r, s'))"
  using assms by (auto simp: and_then_def split: option.splits sum.splits prod.splits)

lemma packTlv_with_client:
  assumes reg: "\<And>f e args s r s'. reg tag = Some f \<Longrightarrow> f e args s = Some (r, s') \<Longrightarrow> client s' = client s"
    and run: "packTlv_with reg e tag args s = Some (r, s')"
  shows "client s' = client s"
proof (cases "reg tag")
  case None
  then show ?thesis using run by (simp add: packTlv_with_def)
next
  case (Some f)
  from run Some have "and_then (f e args s) (\<lambda>t s'.
            if \<not> length t < 65536 then Some (Inl RangeError, s')
            else let lbuf = be_bytes 2 (length t);
                     t1 = unshift lbuf t
                 in if \<not> (0 \<le> tag \<and> tag < 65536) then Some (Inl RangeError, s')
                    else let tbuf = be_bytes 2 (nat tag);
                             t2 = unshift tbuf t1
                         in Some (Inr (fst (read t2)), s')) = Some (r, s')"
    by (simp add: packTlv_with_def)
  then obtain r0 where "f e args s = Some (r0, s')"
    by (auto dest!: and_then_SomeD simp: Let_def split: if_splits)
  with Some show ?thesis by (rule reg)
qed

lemma packTlv_leaf_client:
  "packTlv_with map_leaf e tag args s = Some (r, s') \<Longrightarrow> client s' = client s"
  by (erule packTlv_with_client [rotated]) (rule map_leaf_client)

lemma t144_client:
  assumes "t144 e args s = Some (r, s')"
  shows "client s' = client s"
  using assms unfolding t144_def
  by (auto dest!: and_then_SomeD packTlv_leaf_client split: sum.splits)

lemma map_tlv_client:
  assumes "map_tlv tag = Some f" and "f e args s = Some (r, s')"
  shows "client s' = client s"
proof (cases "tag = 0x144")
  case True
  then have "f = t144" using assms(1) by (simp add: map_tlv_def)
  then show ?thesis using assms(2) by (simp add: t144_client)
next
  case False
  then have "map_leaf tag = Some f" using assms(1) by (simp add: map_tlv_def)
  then show ?thesis using assms(2) by (rule map_leaf_client)
qed

lemma t154_run:
  "t154 e args s =
     Some (if 0 \<le> seq (sig (client s)) + 1 \<and> seq (sig (client s)) + 1 < 2 ^ 32
           then Inr (be_bytes 4 (nat (seq (sig (client s)) + 1))) else Inl RangeError, s)"
  by (simp add: t154_def reads_def writeU32_def write_uint_def new_Writer_def)

lemma map_tlv_154: "map_tlv 0x154 = Some f \<Longrightarrow> f = t154"
  by (simp add: map_tlv_def map_leaf_def)

text \<open>
  Claim C6. Whatever an encoder of the registry returns, the client it ran on is as it
  was before (the only part of the state an encoder adds to is the record of calls to the
  signer and the solver). For tag 0x154 the whole state is unchanged and the payload is
  the sequence counter plus one as an unsigned 32-bit field (a RangeError when that does
  not fit): the counter is read, not advanced.
\<close>

theorem encoders_read_only:
  assumes "map_tlv tag = Some f" and "f e args s = Some (r, s')"
  shows "client s' = client s \<and>
         (tag = 0x154 \<longrightarrow>
            s' = s \<and>
            r = (if 0 \<le> seq (sig (client s)) + 1 \<and> seq (sig (client s)) + 1 < 2 ^ 32
                 then Inr (be_bytes 4 (nat (seq (sig (client s)) + 1)))
                 else Inl RangeError))"
proof (intro conjI impI)
  show "client s' = client s" using assms by (rule map_tlv_client)
next
  let ?r = "if 0 \<le> seq (sig (client s)) + 1 \<and> seq (sig (client s)) + 1 < 2 ^ 32
            then Inr (be_bytes 4 (nat (seq (sig (client s)) + 1))) else Inl RangeError"
  assume "tag = 0x154"
  then have "f = t154" using assms(1) by (simp add: map_tlv_154)
  then have "t154 e args s = Some (r, s')" using assms(2) by simp
  then have "Some (?r, s) = Some (r, s')" by (simp only: t154_run)
  then have p: "(?r, s) = (r, s')" by (simp only: option.inject)
  from p show "s' = s" by (elim Pair_inject) (erule sym)
  from p show "r = ?r" by (elim Pair_inject) (erule sym)
qed

theorem encoders_read_only_witness:
  "map_tlv 0x154 = Some t154 \<and>
   t154 example_env [] example_st = Some (Inr [0, 0, 0, 101], example_st) \<and>
   client example_st = client example_st \<and>
   seq (sig (client example_st)) + 1 = 101 \<and>
   (Inr [0, 0, 0, 101] :: error + bytes) =
     (if 0 \<le> seq (sig (client example_st)) + 1 \<and> seq (sig (client example_st)) + 1 < 2 ^ 32
      then Inr (be_bytes 4 (nat (seq (sig (client example_st)) + 1)))
      else Inl RangeError)"
proof -
  have h1: "map_tlv 0x154 = Some t154" by (simp add: map_tlv_def map_leaf_def)
  have h2: "seq (sig (client example_st)) + 1 = 101"
    by (simp add: example_st_def example_sig_def)
  have "(Inr [0, 0, 0, 101] :: error + bytes) =
     (if 0 \<le> seq (sig (client example_st)) + 1 \<and> seq (sig (client example_st)) + 1 < 2 ^ 32
      then Inr (be_bytes 4 (nat (seq (sig (client example_st)) + 1)))
      else Inl RangeError)"
    using encoders_read_only [OF h1 t154_example] by blast
  then show ?thesis using h1 h2 t154_example by blast
qed

section \<open>The client version, tag 0x100\<close>

lemma t100_run:
  assumes "0 \<le> ssover (apk (client s))" and "ssover (apk (client s)) < 2 ^ 32"
    and "- (2 ^ 31) \<le> appid (apk (client s))" and "appid (apk (client s)) < 2 ^ 31"
    and "0 \<le> main_sig_map (apk (client s))" and "main_sig_map (apk (client s)) < 2 ^ 32"
    and "js_or (arg args 0) (Num (subid (apk (client s)))) = Num v"
    and "0 \<le> v" and "v < 2 ^ 32"
  shows "t100 e args s =
     Some (Inr ([0, 1] @ be_bytes 4 (nat (ssover (apk (client s)))) @
                be_bytes 4 (nat (appid (apk (client s)) mod 2 ^ 32)) @
                be_bytes 4 (nat v) @ [0, 0, 0, 0] @
                be_bytes 4 (nat (main_sig_map (apk (client s))))), s)"
  using assms
  by (simp add: t100_def reads_def writeU16_def writeU32_def write32_def write_uint_def
      new_Writer_def)

text \<open>
  Claim C10. With the numeric fields of the application profile within their widths, the
  payload of tag 0x100 is the version 1, the SSO version, the app id, a 32-bit sub-id
  field \<open>v\<close>, a zero and the signature map. When the argument is omitted, undefined
  or 0, \<open>v\<close> is the profile's \<open>subid\<close>; an argument other than 0 is \<open>v\<close>
  itself.
\<close>

theorem t100_sub_id:
  assumes "0 \<le> ssover (apk (client s))" and "ssover (apk (client s)) < 2 ^ 32"
    and "- (2 ^ 31) \<le> appid (apk (client s))" and "appid (apk (client s)) < 2 ^ 31"
    and "0 \<le> main_sig_map (apk (client s))" and "main_sig_map (apk (client s)) < 2 ^ 32"
    and "0 \<le> v" and "v < 2 ^ 32"
    and "((args = [] \<or> arg args 0 = Undefined \<or> arg args 0 = Num 0) \<and> v = subid (apk (client s))) \<or>
         (arg args 0 = Num v \<and> v \<noteq> 0)"
  shows "t100 e args s =
     Some (Inr ([0, 1] @ be_bytes 4 (nat (ssover (apk (client s)))) @
                be_bytes 4 (nat (appid (apk (client s)) mod 2 ^ 32)) @
                be_bytes 4 (nat v) @ [0, 0, 0, 0] @
                be_bytes 4 (nat (main_sig_map (apk (client s))))), s)"
proof -
  have "js_or (arg args 0) (Num (subid (apk (client s)))) = Num v"
    using assms(9) by (auto simp: js_or_def arg_def)
  with assms(1-6) show ?thesis using assms(7,8) by (rule t100_run)
qed

lemma example_apk_fields:
  "ssover (apk (client example_st)) = 20"
  "appid (apk (client example_st)) = 16"
  "subid (apk (client example_st)) = 537164840"
  "main_sig_map (apk (client example_st)) = 16724722"
  by (simp_all add: example_st_def example_apk_def)

theorem t100_sub_id_witness:
  "arg [Num 0] 0 = Num 0 \<and> subid (apk (client example_st)) = 537164840 \<and>
   t100 example_env [Num 0] example_st =
     Some (Inr [0, 1, 0, 0, 0, 20, 0, 0, 0, 16, 32, 4, 124, 40, 0, 0, 0, 0, 0, 255, 50, 242],
           example_st) \<and>
   t100 example_env [] example_st =
     Some (Inr [0, 1, 0, 0, 0, 20, 0, 0, 0, 16, 32, 4, 124, 40, 0, 0, 0, 0, 0, 255, 50, 242],
           example_st) \<and>
   t100 example_env [Num 7] example_st =
     Some (Inr [0, 1, 0, 0, 0, 20, 0, 0, 0, 16, 0, 0, 0, 7, 0, 0, 0, 0, 0, 255, 50, 242],
           example_st)"
proof -
  have r: "0 \<le> ssover (apk (client example_st))" "ssover (apk (client example_st)) < 2 ^ 32"
    "- (2 ^ 31) \<le> appid (apk (client example_st))" "appid (apk (client example_st)) < 2 ^ 31"
    "0 \<le> main_sig_map (apk (client example_st))"
    "main_sig_map (apk (client example_st)) < 2 ^ 32"
    by (simp_all add: example_apk_fields)
  have a0: "arg [Num 0] 0 = Num 0" by (simp add: arg_def)
  have a7: "arg [Num 7] 0 = Num 7" by (simp add: arg_def)
  have sub: "subid (apk (client example_st)) = 537164840" by (rule example_apk_fields)
  have v: "(0::int) \<le> 537164840" "(537164840::int) < 2 ^ 32" "(0::int) \<le> 7" "(7::int) < 2 ^ 32"
    by simp_all
  have "t100 example_env [Num 0] example_st =
     Some (Inr [0, 1, 0, 0, 0, 20, 0, 0, 0, 16, 32, 4, 124, 40, 0, 0, 0, 0, 0, 255, 50, 242],
           example_st)"
    using t100_sub_id [OF r v(1,2), of "[Num 0]" example_env] a0 sub
    by (simp add: example_apk_fields)
  moreover have "t100 example_env [] example_st =
     Some (Inr [0, 1, 0, 0, 0, 20, 0, 0, 0, 16, 32, 4, 124, 40, 0, 0, 0, 0, 0, 255, 50, 242],
           example_st)"
    using t100_sub_id [OF r v(1,2), of "[]" example_env] sub
    by (simp add: example_apk_fields)
  moreover have "t100 example_env [Num 7] example_st =
     Some (Inr [0, 1, 0, 0, 0, 20, 0, 0, 0, 16, 0, 0, 0, 7, 0, 0, 0, 0, 0, 255, 50, 242],
           example_st)"
    using t100_sub_id [OF r v(3,4), of "[Num 7]" example_env] a7
    by (simp add: example_apk_fields)
  ultimately show ?thesis using a0 sub by blast
qed

section \<open>The enumerated domains, tag 0x511\<close>

lemma utf8_ascii: "list_all (\<lambda>c. unat c < 0x80) s \<Longrightarrow> utf8 s = map (\<lambda>c. of_nat (unat c)) s"
  by (induction s rule: utf8.induct) auto

lemma domains_eq:
  "domains = map str
     [''aq.qq.com'', ''connect.qq.com'', ''docs.qq.com'', ''game.qq.com'',
      ''gamecenter.qq.com'', ''haoma.qq.com'', ''id.qq.com'', ''kg.qq.com'', ''mail.qq.com'',
      ''mma.qq.com'', ''office.qq.com'', ''openmobile.qq.com'', ''qqweb.qq.com'',
      ''qun.qq.com'', ''qzone.qq.com'', ''ti.qq.com'', ''v.qq.com'', ''vip.qq.com'',
      ''y.qq.com'']"
  by (simp add: domains_def Set_of_def str_def)

lemma for_of_entries:
  "list_all (\<lambda>d. length (utf8 d) < 65536) ds \<Longrightarrow>
   for_of ds (\<lambda>v. chain [writeU8 (Num 1), writeTlv (Str v)]) w =
     Inr (w @ concat (map (\<lambda>d. 1 # be_bytes 2 (length (utf8 d)) @ utf8 d) ds))"
  by (induction ds arbitrary: w)
     (simp_all add: writeU8_def write_uint_def writeTlv_def del: be_bytes_numeral)

lemma domains_utf8:
  "map utf8 domains = map (map (\<lambda>c. of_nat (of_char c)))
     [''aq.qq.com'', ''connect.qq.com'', ''docs.qq.com'', ''game.qq.com'',
      ''gamecenter.qq.com'', ''haoma.qq.com'', ''id.qq.com'', ''kg.qq.com'', ''mail.qq.com'',
      ''mma.qq.com'', ''office.qq.com'', ''openmobile.qq.com'', ''qqweb.qq.com'',
      ''qun.qq.com'', ''qzone.qq.com'', ''ti.qq.com'', ''v.qq.com'', ''vip.qq.com'',
      ''y.qq.com'']"
  unfolding domains_eq by (simp add: str_def utf8_ascii)

text \<open>
  Claim C8. Every call of the encoder of tag 0x511, on any arguments and in any state,
  returns the same payload and leaves the state as it was: the 2-byte big-endian count
  19, the size of the set of enabled domains, followed by 19 entries in the order of the
  source, each the marker byte 1, the 2-byte big-endian length of the domain name and
  the name's bytes.
\<close>

theorem t511_layout:
  "t511 e args s =
     Some (Inr ([0, 19] @
            concat (map (\<lambda>n. [1] @ be_bytes 2 (length n) @ map (\<lambda>c. of_nat (of_char c)) n)
              [''aq.qq.com'', ''connect.qq.com'', ''docs.qq.com'', ''game.qq.com'',
               ''gamecenter.qq.com'', ''haoma.qq.com'', ''id.qq.com'', ''kg.qq.com'',
               ''mail.qq.com'', ''mma.qq.com'', ''office.qq.com'', ''openmobile.qq.com'',
               ''qqweb.qq.com'', ''qun.qq.com'', ''qzone.qq.com'', ''ti.qq.com'', ''v.qq.com'',
               ''vip.qq.com'', ''y.qq.com''])), s)"
proof -
  let ?names = "[''aq.qq.com'', ''connect.qq.com'', ''docs.qq.com'', ''game.qq.com'',
               ''gamecenter.qq.com'', ''haoma.qq.com'', ''id.qq.com'', ''kg.qq.com'',
               ''mail.qq.com'', ''mma.qq.com'', ''office.qq.com'', ''openmobile.qq.com'',
               ''qqweb.qq.com'', ''qun.qq.com'', ''qzone.qq.com'', ''ti.qq.com'', ''v.qq.com'',
               ''vip.qq.com'', ''y.qq.com'']"
  let ?entry = "\<lambda>b :: bytes. 1 # be_bytes 2 (length b) @ b"
  have len: "length domains = 19" by (simp add: domains_eq)
  have count: "chain [writeU16 (Num (int (length domains)))] new_Writer = Inr [0, 19]"
    by (simp add: len writeU16_def write_uint_def new_Writer_def)
  have short: "list_all (\<lambda>d. length (utf8 d) < 65536) domains"
  proof -
    have "list_all (\<lambda>b. length b < 65536) (map utf8 domains)"
      unfolding domains_utf8 by simp
    then show ?thesis by (simp add: list_all_iff)
  qed
  have "concat (map (\<lambda>d. ?entry (utf8 d)) domains) = concat (map ?entry (map utf8 domains))"
    by (simp add: comp_def)
  also have "\<dots> = concat (map ?entry (map (map (\<lambda>c. of_nat (of_char c))) ?names))"
    by (simp only: domains_utf8)
  also have "\<dots> = concat (map (\<lambda>n. [1] @ be_bytes 2 (length n) @ map (\<lambda>c. of_nat (of_char c)) n) ?names)"
    by (simp add: comp_def del: be_bytes_numeral)
  finally have entries: "concat (map (\<lambda>d. ?entry (utf8 d)) domains) =
      concat (map (\<lambda>n. [1] @ be_bytes 2 (length n) @ map (\<lambda>c. of_nat (of_char c)) n) ?names)" .
  have "t511 e args s =
      Some (for_of domains (\<lambda>v. chain [writeU8 (Num 1), writeTlv (Str v)]) [0, 19], s)"
    by (simp only: t511_def reads_def count sum.case)
  also have "for_of domains (\<lambda>v. chain [writeU8 (Num 1), writeTlv (Str v)]) [0, 19] =
      Inr ([0, 19] @ concat (map (\<lambda>d. ?entry (utf8 d)) domains))"
    using short by (rule for_of_entries)
  finally show ?thesis by (simp only: entries)
qed

section \<open>The encrypted device information, tag 0x144\<close>

lemma packTlv_with_reads:
  assumes "reg tag = Some f" and "f e args = reads g"
    and "packTlv_with reg e tag args s = Some (r, s')"
  shows "s' = s"
  using assms
  by (auto simp: packTlv_with_def and_then_def reads_def Let_def split: sum.splits if_splits)

lemma inner_tags:
  "map_leaf 0x109 = Some t109" "map_leaf 0x52d = Some t52d" "map_leaf 0x124 = Some t124"
  "map_leaf 0x128 = Some t128" "map_leaf 0x16e = Some t16e"
  by (simp_all add: map_leaf_def)

lemma inner_state:
  "packTlv_with map_leaf e 0x109 [] s = Some (r, s') \<Longrightarrow> s' = s"
  "packTlv_with map_leaf e 0x52d [] s = Some (r, s') \<Longrightarrow> s' = s"
  "packTlv_with map_leaf e 0x124 [] s = Some (r, s') \<Longrightarrow> s' = s"
  "packTlv_with map_leaf e 0x128 [] s = Some (r, s') \<Longrightarrow> s' = s"
  "packTlv_with map_leaf e 0x16e [] s = Some (r, s') \<Longrightarrow> s' = s"
  by ((rule packTlv_with_reads, rule inner_tags, rule t109_def, assumption),
      (rule packTlv_with_reads, rule inner_tags, rule t52d_def, assumption),
      (rule packTlv_with_reads, rule inner_tags, rule t124_def, assumption),
      (rule packTlv_with_reads, rule inner_tags, rule t128_def, assumption),
      (rule packTlv_with_reads, rule inner_tags, rule t16e_def, assumption))

lemma chain_writeBytes_Buf: "chain [writeBytes (Buf b)] new_Writer = Inr b"
  by (simp add: writeBytes_def new_Writer_def)

lemma t144_body:
  "chain [writeU16 (Num 5), writeBytes (Buf b1), writeBytes (Buf b2), writeBytes (Buf b3),
          writeBytes (Buf b4), writeBytes (Buf b5)] new_Writer =
   Inr ([0, 5] @ b1 @ b2 @ b3 @ b4 @ b5)"
  by (simp add: writeU16_def write_uint_def writeBytes_def new_Writer_def)

lemma t144_run:
  assumes "packTlv_with map_leaf e 0x109 [] s = Some (Inr b109, s)"
    and "packTlv_with map_leaf e 0x52d [] s = Some (Inr b52d, s)"
    and "packTlv_with map_leaf e 0x124 [] s = Some (Inr b124, s)"
    and "packTlv_with map_leaf e 0x128 [] s = Some (Inr b128, s)"
    and "packTlv_with map_leaf e 0x16e [] s = Some (Inr b16e, s)"
  shows "t144 e args s =
     Some (Inr (tea_encrypt e ([0, 5] @ b109 @ b52d @ b124 @ b128 @ b16e)
                  (tgtgt (sig (client s)))), s)"
  unfolding t144_def
  by (simp add: assms and_then_def t144_body chain_writeBytes_Buf read_def del: chain.simps)

lemma t144_returns:
  assumes "t144 e args s = Some (Inr p, s')"
  shows "\<exists>b109 b52d b124 b128 b16e.
           packTlv_with map_leaf e 0x109 [] s = Some (Inr b109, s) \<and>
           packTlv_with map_leaf e 0x52d [] s = Some (Inr b52d, s) \<and>
           packTlv_with map_leaf e 0x124 [] s = Some (Inr b124, s) \<and>
           packTlv_with map_leaf e 0x128 [] s = Some (Inr b128, s) \<and>
           packTlv_with map_leaf e 0x16e [] s = Some (Inr b16e, s)"
proof -
  from assms obtain b1 s1 b2 s2 b3 s3 b4 s4 b5 s5 where
    p: "packTlv_with map_leaf e 0x109 [] s = Some (Inr b1, s1)"
       "packTlv_with map_leaf e 0x52d [] s1 = Some (Inr b2, s2)"
       "packTlv_with map_leaf e 0x124 [] s2 = Some (Inr b3, s3)"
       "packTlv_with map_leaf e 0x128 [] s3 = Some (Inr b4, s4)"
       "packTlv_with map_leaf e 0x16e [] s4 = Some (Inr b5, s5)"
    unfolding t144_def by (auto dest!: and_then_SomeD)
  have "s1 = s" using p(1) by (rule inner_state)
  moreover have "s2 = s1" using p(2) by (rule inner_state)
  moreover have "s3 = s2" using p(3) by (rule inner_state)
  moreover have "s4 = s3" using p(4) by (rule inner_state)
  moreover have "s5 = s4" using p(5) by (rule inner_state)
  ultimately show ?thesis using p by auto
qed

text \<open>
  Claim C4. The encoder of tag 0x144 returns a payload exactly when \<open>packTlv\<close> returns a
  block for each of the tags 0x109, 0x52d, 0x124, 0x128 and 0x16e; the payload is then
  the block cipher's encryption, under the key \<^verbatim>\<open>this.sig.tgtgt\<close>, of the 2-byte
  count 5 followed by these five blocks in this order, and the state is unchanged.
\<close>

theorem t144_payload:
  "t144 e args s = Some (Inr p, s') \<longleftrightarrow>
     (\<exists>b109 b52d b124 b128 b16e.
        packTlv e 0x109 [] s = Some (Inr b109, s) \<and>
        packTlv e 0x52d [] s = Some (Inr b52d, s) \<and>
        packTlv e 0x124 [] s = Some (Inr b124, s) \<and>
        packTlv e 0x128 [] s = Some (Inr b128, s) \<and>
        packTlv e 0x16e [] s = Some (Inr b16e, s) \<and>
        s' = s \<and>
        p = tea_encrypt e ([0, 5] @ b109 @ b52d @ b124 @ b128 @ b16e) (tgtgt (sig (client s))))"
proof -
  have leaf: "\<And>tag. tag \<noteq> 0x144 \<Longrightarrow> packTlv e tag [] s = packTlv_with map_leaf e tag [] s"
    by (simp add: packTlv_leaf)
  show ?thesis
  proof
    assume run: "t144 e args s = Some (Inr p, s')"
    then obtain b109 b52d b124 b128 b16e where
      b: "packTlv_with map_leaf e 0x109 [] s = Some (Inr b109, s)"
         "packTlv_with map_leaf e 0x52d [] s = Some (Inr b52d, s)"
         "packTlv_with map_leaf e 0x124 [] s = Some (Inr b124, s)"
         "packTlv_with map_leaf e 0x128 [] s = Some (Inr b128, s)"
         "packTlv_with map_leaf e 0x16e [] s = Some (Inr b16e, s)"
      using t144_returns by blast
    have "t144 e args s =
       Some (Inr (tea_encrypt e ([0, 5] @ b109 @ b52d @ b124 @ b128 @ b16e)
                    (tgtgt (sig (client s)))), s)"
      using b by (rule t144_run)
    with run have "s' = s"
      and "p = tea_encrypt e ([0, 5] @ b109 @ b52d @ b124 @ b128 @ b16e) (tgtgt (sig (client s)))"
      by auto
    with b show "\<exists>b109 b52d b124 b128 b16e.
        packTlv e 0x109 [] s = Some (Inr b109, s) \<and>
        packTlv e 0x52d [] s = Some (Inr b52d, s) \<and>
        packTlv e 0x124 [] s = Some (Inr b124, s) \<and>
        packTlv e 0x128 [] s = Some (Inr b128, s) \<and>
        packTlv e 0x16e [] s = Some (Inr b16e, s) \<and>
        s' = s \<and>
        p = tea_encrypt e ([0, 5] @ b109 @ b52d @ b124 @ b128 @ b16e) (tgtgt (sig (client s)))"
      by (simp add: leaf)
  next
    assume "\<exists>b109 b52d b124 b128 b16e.
        packTlv e 0x109 [] s = Some (Inr b109, s) \<and>
        packTlv e 0x52d [] s = Some (Inr b52d, s) \<and>
        packTlv e 0x124 [] s = Some (Inr b124, s) \<and>
        packTlv e 0x128 [] s = Some (Inr b128, s) \<and>
        packTlv e 0x16e [] s = Some (Inr b16e, s) \<and>
        s' = s \<and>
        p = tea_encrypt e ([0, 5] @ b109 @ b52d @ b124 @ b128 @ b16e) (tgtgt (sig (client s)))"
    then obtain b109 b52d b124 b128 b16e where
      b: "packTlv_with map_leaf e 0x109 [] s = Some (Inr b109, s)"
         "packTlv_with map_leaf e 0x52d [] s = Some (Inr b52d, s)"
         "packTlv_with map_leaf e 0x124 [] s = Some (Inr b124, s)"
         "packTlv_with map_leaf e 0x128 [] s = Some (Inr b128, s)"
         "packTlv_with map_leaf e 0x16e [] s = Some (Inr b16e, s)"
      and s: "s' = s"
      and p: "p = tea_encrypt e ([0, 5] @ b109 @ b52d @ b124 @ b128 @ b16e) (tgtgt (sig (client s)))"
      by (auto simp: leaf)
    show "t144 e args s = Some (Inr p, s')"
      unfolding s p using b by (rule t144_run)
  qed
qed

lemma example_inner_payloads:
  "t109 example_env [] example_st =
     Some (Inr [56, 54, 49, 50, 51, 52, 53, 54, 55, 56, 57, 48, 49, 50, 51, 0], example_st)"
  "t52d example_env [] example_st =
     Some (Inr [1, 2, 3, 4, 5, 6, 7, 8, 9], example_st)"
  "t124 example_env [] example_st =
     Some (Inr [0, 7, 97, 110, 100, 114, 111, 105, 100, 0, 2, 49, 48, 0, 2, 0, 8, 84, 45, 77,
       111, 98, 105, 108, 101, 0, 0, 0, 4, 119, 105, 102, 105], example_st)"
  "t128 example_env [] example_st =
     Some (Inr [0, 0, 0, 1, 0, 1, 0, 0, 0, 0, 7, 80, 105, 120, 101, 108, 32, 52, 0, 16, 158, 43, 196,
       87, 16, 243, 106, 141, 33, 184, 79, 230, 5, 124, 217, 50, 0, 6, 103, 111, 111, 103, 108, 101], example_st)"
  "t16e example_env [] example_st =
     Some (Inr [80, 105, 120, 101, 108, 32, 52], example_st)"
  by (simp_all add: t109_def t52d_def t124_def t128_def t16e_def reads_def with_arg_def
      md5_of_def alloc_def example_st_def example_device_def example_env_def str_def
      writeBytes_def writeTlv_def writeU8_def writeU16_def writeU32_def write_uint_def
      new_Writer_def)

lemma example_inner_blocks:
  "packTlv example_env 0x109 [] example_st =
     Some (Inr [1, 9, 0, 16, 56, 54, 49, 50, 51, 52, 53, 54, 55, 56, 57, 48, 49, 50, 51, 0], example_st)"
  "packTlv example_env 0x52d [] example_st =
     Some (Inr [5, 45, 0, 9, 1, 2, 3, 4, 5, 6, 7, 8, 9], example_st)"
  "packTlv example_env 0x124 [] example_st =
     Some (Inr [1, 36, 0, 33, 0, 7, 97, 110, 100, 114, 111, 105, 100, 0, 2, 49, 48, 0, 2, 0, 8,
       84, 45, 77, 111, 98, 105, 108, 101, 0, 0, 0, 4, 119, 105, 102, 105], example_st)"
  "packTlv example_env 0x128 [] example_st =
     Some (Inr [1, 40, 0, 44, 0, 0, 0, 1, 0, 1, 0, 0, 0, 0, 7, 80, 105, 120, 101, 108, 32, 52,
       0, 16, 158, 43, 196, 87, 16, 243, 106, 141, 33, 184, 79, 230, 5, 124, 217, 50, 0, 6, 103, 111,
       111, 103, 108, 101], example_st)"
  "packTlv example_env 0x16e [] example_st =
     Some (Inr [1, 110, 0, 7, 80, 105, 120, 101, 108, 32, 52], example_st)"
  using packTlv_ok [where tag = "0x109" and f = t109, OF _ example_inner_payloads(1)]
    packTlv_ok [where tag = "0x52d" and f = t52d, OF _ example_inner_payloads(2)]
    packTlv_ok [where tag = "0x124" and f = t124, OF _ example_inner_payloads(3)]
    packTlv_ok [where tag = "0x128" and f = t128, OF _ example_inner_payloads(4)]
    packTlv_ok [where tag = "0x16e" and f = t16e, OF _ example_inner_payloads(5)]
  by (simp_all add: map_tlv_def map_leaf_def)

theorem t144_payload_witness:
  "t144 example_env [] example_st =
     Some (Inr [16, 15, 14, 13, 12, 11, 10, 9, 8, 7, 6, 5, 4, 3, 2, 1, 0, 5, 1, 9, 0, 16, 56,
       54, 49, 50, 51, 52, 53, 54, 55, 56, 57, 48, 49, 50, 51, 0, 5, 45, 0, 9, 1, 2, 3,
       4, 5, 6, 7, 8, 9, 1, 36, 0, 33, 0, 7, 97, 110, 100, 114, 111, 105, 100, 0, 2,
       49, 48, 0, 2, 0, 8, 84, 45, 77, 111, 98, 105, 108, 101, 0, 0, 0, 4, 119, 105,
       102, 105, 1, 40, 0, 44, 0, 0, 0, 1, 0, 1, 0, 0, 0, 0, 7, 80, 105, 120, 101, 108,
       32, 52, 0, 16, 158, 43, 196, 87, 16, 243, 106, 141, 33, 184, 79, 230, 5, 124, 217, 50, 0, 6, 103,
       111, 111, 103, 108, 101, 1, 110, 0, 7, 80, 105, 120, 101, 108, 32, 52], example_st)"
proof -
  have key: "tgtgt (sig (client example_st)) = [16, 15, 14, 13, 12, 11, 10, 9, 8, 7, 6, 5, 4, 3, 2, 1]"
    by (simp add: example_st_def example_sig_def)
  have enc: "tea_encrypt example_env = (\<lambda>d k. k @ d)"
    by (simp add: example_env_def)
  show ?thesis
    by (rule t144_payload [THEN iffD2]) (simp add: example_inner_blocks key enc)
qed

section \<open>The capped device fields, tags 0x124 and 0x128\<close>

lemma list_all_take: "list_all P xs \<Longrightarrow> list_all P (take n xs)"
  by (auto simp: list_all_iff dest: in_set_takeD)

lemma utf8_take_ascii:
  assumes "list_all (\<lambda>c. unat c < 0x80) x"
  shows "utf8 (take cap x) = take cap (utf8 x)"
proof -
  have "utf8 (take cap x) = map (\<lambda>c. of_nat (unat c)) (take cap x)"
    using assms by (intro utf8_ascii list_all_take)
  also have "\<dots> = take cap (map (\<lambda>c. of_nat (unat c)) x)" by (simp add: take_map)
  also have "\<dots> = take cap (utf8 x)" using assms by (simp add: utf8_ascii)
  finally show ?thesis .
qed

lemma utf8_length_le: "length (utf8 s) \<le> 3 * length s"
  by (induction s rule: utf8.induct) auto

lemma slice_cut:
  assumes "cap \<le> 21845"
  shows "with_arg (slice v 0 cap) writeTlv w =
         (case cut_field cap v of Inl x \<Rightarrow> Inl x | Inr b \<Rightarrow> Inr (w @ b))"
proof (cases v)
  case (Str x)
  have "length (utf8 (take cap x)) \<le> 3 * length (take cap x)" by (rule utf8_length_le)
  also have "\<dots> \<le> 3 * cap" by simp
  finally have "length (utf8 (take cap x)) < 65536" using assms by simp
  then show ?thesis using Str
    by (simp add: with_arg_def writeTlv_def length_prefixed_def del: be_bytes_numeral)
next
  case (Buf x)
  have "length (take cap x) < 65536" using assms by simp
  then show ?thesis using Buf
    by (simp add: with_arg_def writeTlv_def length_prefixed_def del: be_bytes_numeral)
qed (simp_all add: with_arg_def)

lemma chain_in_order:
  assumes "list_all2 (\<lambda>f p. \<forall>w. f w = (case p of Inl x \<Rightarrow> Inl x | Inr b \<Rightarrow> Inr (w @ b))) fs ps"
  shows "chain fs w = (case in_order ps of Inl x \<Rightarrow> Inl x | Inr bs \<Rightarrow> Inr (w @ bs))"
  using assms
proof (induction fs ps arbitrary: w rule: list_all2_induct)
  case Nil
  show ?case by simp
next
  case (Cons f fs p ps)
  show ?case
  proof (cases p)
    case (Inl x)
    then show ?thesis using Cons.hyps by simp
  next
    case (Inr b)
    then have "f w = Inr (w @ b)" using Cons.hyps by simp
    then show ?thesis using Inr Cons.IH [of "w @ b"]
      by (simp split: sum.splits)
  qed
qed

lemma chain_from_empty:
  assumes "list_all2 (\<lambda>f p. \<forall>w. f w = (case p of Inl x \<Rightarrow> Inl x | Inr b \<Rightarrow> Inr (w @ b))) fs ps"
  shows "chain fs new_Writer = in_order ps"
  using chain_in_order [OF assms, of "[]"]
  by (cases "in_order ps") (simp_all add: new_Writer_def)

lemma write_constants:
  "writeU16 (Num 2) w = Inr (w @ [0, 2])"
  "writeU16 (Num 0) w = Inr (w @ [0, 0])"
  "writeU8 (Num 0) w = Inr (w @ [0])"
  "writeU8 (Num 1) w = Inr (w @ [1])"
  "writeU32 (Num 16777216) w = Inr (w @ [1, 0, 0, 0])"
  by (simp_all add: writeU8_def writeU16_def writeU32_def write_uint_def)

lemma t124_run:
  "t124 e args s =
     Some (in_order
       [cut_field 16 (os_type (device (client s))),
        cut_field 16 (release (version (device (client s)))),
        Inr [0, 2],
        cut_field 16 (sim (device (client s))),
        Inr [0, 0],
        cut_field 16 (apn (device (client s)))], s)"
proof -
  have "chain
     [with_arg (slice (os_type (device (client s))) 0 16) writeTlv,
      with_arg (slice (release (version (device (client s)))) 0 16) writeTlv,
      writeU16 (Num 2),
      with_arg (slice (sim (device (client s))) 0 16) writeTlv,
      writeU16 (Num 0),
      with_arg (slice (apn (device (client s))) 0 16) writeTlv] new_Writer =
    in_order
       [cut_field 16 (os_type (device (client s))),
        cut_field 16 (release (version (device (client s)))),
        Inr [0, 2],
        cut_field 16 (sim (device (client s))),
        Inr [0, 0],
        cut_field 16 (apn (device (client s)))]"
    by (rule chain_from_empty) (simp add: slice_cut write_constants)
  then show ?thesis by (simp only: t124_def reads_def)
qed

lemma header_128:
  "in_order (Inr [0, 0] # Inr [0] # Inr [1] # Inr [0] # Inr [1, 0, 0, 0] # ps) =
   in_order (Inr [0, 0, 0, 1, 0, 1, 0, 0, 0] # ps)"
  by (cases "in_order ps") simp_all

lemma t128_run:
  "t128 e args s =
     Some (in_order
       [Inr [0, 0, 0, 1, 0, 1, 0, 0, 0],
        cut_field 32 (model (device (client s))),
        cut_field 16 (guid (device (client s))),
        cut_field 16 (brand (device (client s)))], s)"
proof -
  have "chain
     [writeU16 (Num 0),
      writeU8 (Num 0),
      writeU8 (Num 1),
      writeU8 (Num 0),
      writeU32 (Num 16777216),
      with_arg (slice (model (device (client s))) 0 32) writeTlv,
      with_arg (slice (guid (device (client s))) 0 16) writeTlv,
      with_arg (slice (brand (device (client s))) 0 16) writeTlv] new_Writer =
    in_order
       [Inr [0, 0], Inr [0], Inr [1], Inr [0], Inr [1, 0, 0, 0],
        cut_field 32 (model (device (client s))),
        cut_field 16 (guid (device (client s))),
        cut_field 16 (brand (device (client s)))]"
    by (rule chain_from_empty) (simp add: slice_cut write_constants)
  then show ?thesis by (simp only: t128_def reads_def header_128)
qed

lemma cut_field_bytes:
  assumes "bytes_counted v" and "cap < length (field_bytes v)"
  shows "cut_field cap v = Inr (be_bytes 2 cap @ take cap (field_bytes v))"
proof (cases v)
  case (Str x)
  then have "utf8 (take cap x) = take cap (utf8 x)"
    using assms(1) by (simp add: utf8_take_ascii)
  then show ?thesis using Str assms(2)
    by (simp add: length_prefixed_def min_def del: be_bytes_numeral)
next
  case (Buf x)
  then show ?thesis using assms(2)
    by (simp add: length_prefixed_def min_def del: be_bytes_numeral)
qed (use assms(1) in simp_all)

text \<open>
  Claim C7, as amended. In the payloads of tags 0x124 and 0x128 each capped device field
  (cap 16 for OS type, OS release, sim, apn, guid and brand, 32 for model) is the value
  cut by \<^verbatim>\<open>slice(0, cap)\<close> to its left-most \<open>cap\<close> elements, written with its
  2-byte length: the elements are the bytes of a Buffer and the UTF-16 code units of a
  string (a field that is neither makes the encoder throw). This holds for each field
  whatever the other fields are. So a field that is a Buffer or an ASCII string and longer
  than its cap is written as exactly \<open>cap\<close> bytes, the first \<open>cap\<close> bytes of the input.
\<close>

theorem device_fields_capped:
  "t124 e args s =
     Some (in_order
       [cut_field 16 (os_type (device (client s))),
        cut_field 16 (release (version (device (client s)))),
        Inr [0, 2],
        cut_field 16 (sim (device (client s))),
        Inr [0, 0],
        cut_field 16 (apn (device (client s)))], s) \<and>
   t128 e args s =
     Some (in_order
       [Inr [0, 0, 0, 1, 0, 1, 0, 0, 0],
        cut_field 32 (model (device (client s))),
        cut_field 16 (guid (device (client s))),
        cut_field 16 (brand (device (client s)))], s) \<and>
   (bytes_counted v \<and> cap < length (field_bytes v) \<longrightarrow>
      cut_field cap v = Inr (be_bytes 2 cap @ take cap (field_bytes v)) \<and>
      length (take cap (field_bytes v)) = cap)"
  using t124_run [of e args s] t128_run [of e args s] cut_field_bytes [of v cap]
  by simp

lemma long_model_fields:
  "model (device (client long_model_st)) = Str (str ''Galaxy Enterprise Edition 5G Dual SIM XL'')"
  "guid (device (client long_model_st)) =
     Buf [158, 43, 196, 87, 16, 243, 106, 141, 33, 184, 79, 230, 5, 124, 217, 50]"
  "brand (device (client long_model_st)) = Str (str ''google'')"
  by (simp_all add: long_model_st_def example_st_def example_device_def)

lemma mixed_fields:
  "os_type (device (client mixed_fields_st)) = Str (str ''android-with-a-long-name'')"
  "release (version (device (client mixed_fields_st))) = Str (str ''10'')"
  "sim (device (client mixed_fields_st)) = Str (str ''T-Mobile'')"
  "apn (device (client mixed_fields_st)) = Str (replicate 17 0xE9)"
  by (simp_all add: mixed_fields_st_def example_st_def example_device_def)

lemma utf8_e_acute: "utf8 (0xE9 # cs) = 0xC3 # 0xA9 # utf8 cs"
  by (cases cs) simp_all

lemma utf8_replicate_e_acute: "utf8 (replicate n 0xE9) = concat (replicate n [0xC3, 0xA9])"
  by (induction n) (simp_all add: utf8_e_acute del: utf8.simps(2,3))

lemma length_concat_pairs: "length (concat (replicate n [a, b])) = 2 * n"
  by (induction n) simp_all

theorem device_fields_capped_witness:
  "bytes_counted (model (device (client long_model_st))) \<and>
   32 < length (field_bytes (model (device (client long_model_st)))) \<and>
   cut_field 32 (model (device (client long_model_st))) =
     Inr [0, 32, 71, 97, 108, 97, 120, 121, 32, 69, 110, 116, 101, 114, 112, 114, 105,
       115, 101, 32, 69, 100, 105, 116, 105, 111, 110, 32, 53, 71, 32, 68, 117, 97] \<and>
   t128 example_env [] long_model_st =
     Some (Inr [0, 0, 0, 1, 0, 1, 0, 0, 0, 0, 32, 71, 97, 108, 97, 120, 121, 32, 69, 110, 116,
       101, 114, 112, 114, 105, 115, 101, 32, 69, 100, 105, 116, 105, 111, 110, 32, 53,
       71, 32, 68, 117, 97, 0, 16, 158, 43, 196, 87, 16, 243, 106, 141, 33, 184, 79,
       230, 5, 124, 217, 50, 0, 6, 103, 111, 111, 103, 108, 101], long_model_st) \<and>
   t124 example_env [] mixed_fields_st =
     Some (Inr ([0, 16, 97, 110, 100, 114, 111, 105, 100, 45, 119, 105, 116, 104, 45,
                 97, 45, 108, 0, 2, 49, 48, 0, 2, 0, 8, 84, 45, 77, 111, 98, 105, 108,
                 101, 0, 0, 0, 32] @
                concat (replicate 16 [0xC3, 0xA9])), mixed_fields_st)"
proof -
  have h: "bytes_counted (model (device (client long_model_st))) \<and>
      32 < length (field_bytes (model (device (client long_model_st))))"
    by (simp add: long_model_fields str_def utf8_ascii)
  have cut: "cut_field 32 (model (device (client long_model_st))) =
     Inr [0, 32, 71, 97, 108, 97, 120, 121, 32, 69, 110, 116, 101, 114, 112, 114, 105,
       115, 101, 32, 69, 100, 105, 116, 105, 111, 110, 32, 53, 71, 32, 68, 117, 97]"
    using device_fields_capped [of example_env "[]" long_model_st
        "model (device (client long_model_st))" 32] h
    by (simp add: long_model_fields str_def utf8_ascii)
  have m: "t128 example_env [] long_model_st =
     Some (Inr [0, 0, 0, 1, 0, 1, 0, 0, 0, 0, 32, 71, 97, 108, 97, 120, 121, 32, 69, 110, 116,
       101, 114, 112, 114, 105, 115, 101, 32, 69, 100, 105, 116, 105, 111, 110, 32, 53,
       71, 32, 68, 117, 97, 0, 16, 158, 43, 196, 87, 16, 243, 106, 141, 33, 184, 79,
       230, 5, 124, 217, 50, 0, 6, 103, 111, 111, 103, 108, 101], long_model_st)"
    using device_fields_capped [of example_env "[]" long_model_st "Buf []" 0]
    by (simp add: long_model_fields str_def length_prefixed_def)
  have a: "t124 example_env [] mixed_fields_st =
     Some (Inr ([0, 16, 97, 110, 100, 114, 111, 105, 100, 45, 119, 105, 116, 104, 45,
                 97, 45, 108, 0, 2, 49, 48, 0, 2, 0, 8, 84, 45, 77, 111, 98, 105, 108,
                 101, 0, 0, 0, 32] @
                concat (replicate 16 [0xC3, 0xA9])), mixed_fields_st)"
    using device_fields_capped [of example_env "[]" mixed_fields_st "Buf []" 0]
    by (simp add: mixed_fields str_def length_prefixed_def utf8_replicate_e_acute
        length_concat_pairs)
  from h cut m a show ?thesis by blast
qed

text \<open>
  Claim C7 as stated fails for a model name of 33 times U+00E9, which is 66 bytes long:
  the cut keeps 32 code units, and the field written is 64 bytes long, not the 32 bytes
  the cap promises.
\<close>

theorem device_fields_capped_counterexample:
  "field_bytes (model (device (client accented_model_st))) = concat (replicate 33 [0xC3, 0xA9]) \<and>
   t128 example_env [] accented_model_st =
     Some (Inr ([0, 0, 0, 1, 0, 1, 0, 0, 0] @ [0, 64] @ concat (replicate 32 [0xC3, 0xA9]) @
                [0, 16, 158, 43, 196, 87, 16, 243, 106, 141, 33, 184, 79, 230, 5, 124, 217, 50, 0, 6,
                 103, 111, 111, 103, 108, 101]),
           accented_model_st) \<and>
   t128 example_env [] accented_model_st \<noteq>
     Some (Inr ([0, 0, 0, 1, 0, 1, 0, 0, 0] @
                truncated_field 32 (concat (replicate 33 [0xC3, 0xA9])) @
                [0, 16, 158, 43, 196, 87, 16, 243, 106, 141, 33, 184, 79, 230, 5, 124, 217, 50, 0, 6,
                 103, 111, 111, 103, 108, 101]),
           accented_model_st)"
proof -
  have m: "model (device (client accented_model_st)) = Str (replicate 33 0xE9)"
    and g: "guid (device (client accented_model_st)) =
      Buf [158, 43, 196, 87, 16, 243, 106, 141, 33, 184, 79, 230, 5, 124, 217, 50]"
    and b: "brand (device (client accented_model_st)) = Str (str ''google'')"
    by (simp_all add: accented_model_st_def example_st_def example_device_def)
  have cut: "take 32 (replicate 33 (0xE9 :: 16 word)) = replicate 32 0xE9"
    by simp
  have bytes: "field_bytes (model (device (client accented_model_st))) =
      concat (replicate 33 [0xC3, 0xA9])"
    by (simp add: m utf8_replicate_e_acute)
  have run: "t128 example_env [] accented_model_st =
     Some (Inr ([0, 0, 0, 1, 0, 1, 0, 0, 0] @ [0, 64] @ concat (replicate 32 [0xC3, 0xA9]) @
                [0, 16, 158, 43, 196, 87, 16, 243, 106, 141, 33, 184, 79, 230, 5, 124, 217, 50, 0, 6, 103, 111, 111, 103,
                 108, 101]),
           accented_model_st)"
    by (simp add: t128_def reads_def with_arg_def m g b cut utf8_replicate_e_acute
        length_concat_pairs str_def writeTlv_def writeU8_def writeU16_def writeU32_def
        write_uint_def new_Writer_def)
  have claimed: "truncated_field 32 (concat (replicate 33 [0xC3, 0xA9 :: byte])) =
      [0, 32] @ take 32 (concat (replicate 33 [0xC3, 0xA9]))"
    by (simp add: truncated_field_def length_concat_pairs)
  show ?thesis
    unfolding run claimed using bytes by simp
qed

section \<open>The proof of work, tag 0x548\<close>

subsection \<open>Hexadecimal text\<close>

lemma hexval_hexdigit: "n < 16 \<Longrightarrow> hexval (hexdigit n) = Some n"
proof -
  have "list_all (\<lambda>k. hexval (hexdigit k) = Some k) [0..<16]"
    by code_simp
  moreover assume "n < 16"
  ultimately show ?thesis by (simp add: list_all_iff)
qed

lemma toString_hex_Cons:
  "toString_hex (b # bs) = hexdigit (unat b div 16) # hexdigit (unat b mod 16) # toString_hex bs"
  by (simp add: toString_hex_def)

lemma toString_hex_Nil: "toString_hex [] = []"
  by (simp add: toString_hex_def)

lemma toString_hex_append: "toString_hex (xs @ ys) = toString_hex xs @ toString_hex ys"
  by (simp add: toString_hex_def)

lemma byte_nibbles: "unat (b :: byte) div 16 < 16" "unat b mod 16 < 16"
proof -
  have "unat b < 256" using unsigned_less [of b] by simp
  then show "unat b div 16 < 16" by simp
  show "unat b mod 16 < 16" by simp
qed

lemma hex_value_toString_hex:
  "hex_value a (toString_hex bs) = Some (foldl (\<lambda>a b. a * 256 + unat b) a bs)"
proof (induction bs arbitrary: a)
  case Nil
  show ?case by (simp add: toString_hex_Nil)
next
  case (Cons b bs)
  have e: "(a * 16 + unat b div 16) * 16 + unat b mod 16 = a * 256 + unat b"
    by simp
  have "hex_value a (toString_hex (b # bs)) =
      hex_value ((a * 16 + unat b div 16) * 16 + unat b mod 16) (toString_hex bs)"
    by (simp add: toString_hex_Cons hexval_hexdigit byte_nibbles)
  also have "\<dots> = hex_value (a * 256 + unat b) (toString_hex bs)"
    by (simp only: e)
  also have "\<dots> = Some (foldl (\<lambda>a b. a * 256 + unat b) (a * 256 + unat b) bs)"
    by (rule Cons.IH)
  finally show ?case by simp
qed

lemma BigInt_hex_toString_hex:
  "src \<noteq> [] \<Longrightarrow> BigInt_hex (toString_hex src) = Inr (be_decode src)"
proof -
  assume "src \<noteq> []"
  then have "toString_hex src \<noteq> []"
    by (cases src) (simp_all add: toString_hex_Cons)
  then show ?thesis
    by (simp add: BigInt_hex_def hex_value_toString_hex be_decode_def)
qed

lemma from_hex_toString_hex: "from_hex (toString_hex bs) = bs"
proof (induction bs)
  case Nil
  show ?case by (simp add: toString_hex_Nil)
next
  case (Cons b bs)
  have "(of_nat (unat b div 16 * 16 + unat b mod 16) :: byte) = b"
    by simp
  then show ?case
    by (simp add: toString_hex_Cons hexval_hexdigit byte_nibbles Cons.IH)
qed

lemma hexdigit_0: "hexdigit 0 = CHR ''0''"
  by (simp add: hexdigit_def)

lemma padStart_toString16:
  assumes "0 < m"
  shows "padStart (Suc m) CHR ''0'' (toString16 n) =
         padStart m CHR ''0'' (toString16 (n div 16)) @ [hexdigit (n mod 16)]"
proof (cases "n < 16")
  case True
  then have "toString16 n = [hexdigit n]" "toString16 (n div 16) = [CHR ''0'']"
    by (simp_all add: toString16.simps [of n] toString16.simps [of 0] hexdigit_0)
  moreover have "replicate m CHR ''0'' = replicate (m - 1) CHR ''0'' @ [CHR ''0'']"
    using assms by (cases m) (simp_all add: replicate_append_same)
  ultimately show ?thesis using True by (simp add: padStart_def)
next
  case False
  then have "toString16 n = toString16 (n div 16) @ [hexdigit (n mod 16)]"
    by (simp add: toString16.simps [of n])
  then show ?thesis by (simp add: padStart_def)
qed

lemma padStart_be_bytes:
  assumes "0 < k" and "n < 256 ^ k"
  shows "padStart (2 * k) CHR ''0'' (toString16 n) = toString_hex (be_bytes k n)"
  using assms
proof (induction k arbitrary: n)
  case 0
  then show ?case by simp
next
  case (Suc k)
  have two: "padStart (Suc (Suc (2 * k))) CHR ''0'' (toString16 n) =
      padStart (2 * k) CHR ''0'' (toString16 (n div 256)) @
      [hexdigit (n div 16 mod 16), hexdigit (n mod 16)]" if "0 < k"
  proof -
    have "padStart (Suc (Suc (2 * k))) CHR ''0'' (toString16 n) =
        padStart (Suc (2 * k)) CHR ''0'' (toString16 (n div 16)) @ [hexdigit (n mod 16)]"
      by (rule padStart_toString16) simp
    also have "padStart (Suc (2 * k)) CHR ''0'' (toString16 (n div 16)) =
        padStart (2 * k) CHR ''0'' (toString16 (n div 16 div 16)) @ [hexdigit (n div 16 mod 16)]"
      using that by (intro padStart_toString16) simp
    also have "n div 16 div 16 = n div 256" by (simp add: div_mult2_eq)
    finally show ?thesis by simp
  qed
  have last: "toString_hex [of_nat (n mod 256) :: byte] =
      [hexdigit (n div 16 mod 16), hexdigit (n mod 16)]"
  proof -
    have "unat (of_nat (n mod 256) :: byte) = n mod 256" by (simp add: unat_of_nat)
    moreover have "n mod 256 div 16 = n div 16 mod 16"
    proof -
      have "n mod 256 = 16 * (n div 16 mod 16) + n mod 16"
        using mod_mult2_eq [of n 16 16] by simp
      then show ?thesis by simp
    qed
    moreover have "n mod 256 mod 16 = n mod 16"
      by (simp add: mod_mod_cancel)
    ultimately show ?thesis by (simp add: toString_hex_Cons toString_hex_Nil)
  qed
  show ?case
  proof (cases "k = 0")
    case True
    then have n: "n < 256" using Suc.prems by simp
    show ?thesis
    proof (cases "n < 16")
      case True
      then have "toString16 n = [hexdigit n]" by (simp add: toString16.simps [of n])
      with True \<open>k = 0\<close> last show ?thesis
        by (simp add: padStart_def hexdigit_0)
    next
      case False
      with n have "n div 16 < 16" by simp
      then have "toString16 n = [hexdigit (n div 16), hexdigit (n mod 16)]"
        using False by (simp add: toString16.simps [of n] toString16.simps [of "n div 16"])
      moreover have "n div 16 mod 16 = n div 16" using \<open>n div 16 < 16\<close> by simp
      ultimately show ?thesis using \<open>k = 0\<close> last
        by (simp add: padStart_def)
    qed
  next
    case False
    then have k: "0 < k" by simp
    have "n div 256 < 256 ^ k" using Suc.prems by (simp add: less_mult_imp_div_less)
    then have "padStart (2 * k) CHR ''0'' (toString16 (n div 256)) =
        toString_hex (be_bytes k (n div 256))"
      using k by (intro Suc.IH)
    then show ?thesis
      using two [OF k] last by (simp add: toString_hex_append)
  qed
qed

subsection \<open>The target of a seed\<close>

lemma be_decode_less: "be_decode bs < 256 ^ length bs"
proof (induction bs rule: rev_induct)
  case Nil
  show ?case by (simp add: be_decode_def)
next
  case (snoc b bs)
  have "unat b < 256" using unsigned_less [of b] by simp
  with snoc show ?case by (simp add: be_decode_snoc)
qed

lemma be_decode_Cons: "be_decode (b # bs) = unat b * 256 ^ length bs + be_decode bs"
proof (induction bs rule: rev_induct)
  case Nil
  show ?case by (simp add: be_decode_def)
next
  case (snoc x xs)
  have "be_decode (b # xs @ [x]) = be_decode ((b # xs) @ [x])" by simp
  also have "\<dots> = be_decode (b # xs) * 256 + unat x" by (rule be_decode_snoc)
  finally show ?case by (simp add: snoc be_decode_snoc algebra_simps)
qed

lemma seed_plus_fits:
  assumes "length seed = 128" and "seed ! 0 \<noteq> 255"
  shows "be_decode seed + 10000 < 256 ^ 128"
proof -
  obtain b bs where seed: "seed = b # bs" and len: "length bs = 127"
    using assms(1) by (cases seed) auto
  have b: "unat b \<le> 254"
  proof -
    have "unat b < 256" using unsigned_less [of b] by simp
    moreover have "unat b \<noteq> 255"
    proof
      assume "unat b = 255"
      moreover have "of_nat (unat b) = b" by simp
      ultimately have "b = 255" by simp
      then show False using assms(2) seed by simp
    qed
    ultimately show ?thesis by simp
  qed
  define X :: nat where "X = 256 ^ 127"
  have "(256::nat) ^ 2 \<le> 256 ^ 127" by (rule power_increasing) simp_all
  then have X: "10000 < X" unfolding X_def by simp
  have "be_decode bs < X" using be_decode_less [of bs] len by (simp add: X_def)
  moreover have "unat b * X \<le> 254 * X" using b by (rule mult_le_mono1)
  moreover have "be_decode seed = unat b * X + be_decode bs"
    by (simp add: seed be_decode_Cons len X_def)
  moreover have "(256::nat) ^ 128 = 256 * X" by (simp add: X_def)
  ultimately show ?thesis using X by linarith
qed

lemma pow_dst_run:
  assumes "length seed = 128" and "seed ! 0 \<noteq> 255"
  shows "pow_dst seed = Inr (be_bytes 128 (be_decode seed + 10000))"
proof -
  have ne: "seed \<noteq> []" using assms(1) by auto
  have "padStart (2 * 128) CHR ''0'' (toString16 (be_decode seed + 10000)) =
      toString_hex (be_bytes 128 (be_decode seed + 10000))"
    using seed_plus_fits [OF assms] by (intro padStart_be_bytes) simp_all
  then have "from_hex (padStart 256 CHR ''0'' (toString16 (be_decode seed + 10000))) =
      be_bytes 128 (be_decode seed + 10000)"
    by (simp only: from_hex_toString_hex mult_2 numeral_Bit0 [symmetric]) 
  then show ?thesis
    by (simp add: pow_dst_def BigInt_hex_toString_hex ne Let_def del: be_bytes_numeral)
qed

subsection \<open>The seed and the challenge\<close>

lemma resample_SomeD:
  assumes "resample r i src = Some y"
  shows "length y = length src \<and> \<not> (y ! 0 = 0 \<or> y ! 0 = 255)"
proof (rule resample.raw_induct
    [where P = "\<lambda>r i src y. length y = length src \<and> \<not> (y ! 0 = 0 \<or> y ! 0 = 255)", OF _ assms])
  fix f :: "(nat \<Rightarrow> byte) \<Rightarrow> nat \<Rightarrow> bytes \<Rightarrow> bytes option" and r i src y
  assume IH: "\<And>r i src y. f r i src = Some y \<Longrightarrow>
      length y = length src \<and> \<not> (y ! 0 = 0 \<or> y ! 0 = 255)"
    and step: "(if src ! 0 = 0 \<or> src ! 0 = 255 then f r (Suc i) (src[0 := r i]) else Some src) =
      Some y"
  show "length y = length src \<and> \<not> (y ! 0 = 0 \<or> y ! 0 = 255)"
  proof (cases "src ! 0 = 0 \<or> src ! 0 = 255")
    case True
    with step have "f r (Suc i) (src[0 := r i]) = Some y" by simp
    then have "length y = length (src[0 := r i]) \<and> \<not> (y ! 0 = 0 \<or> y ! 0 = 255)"
      by (rule IH)
    then show ?thesis by simp
  next
    case False
    with step have "y = src" by simp
    with False show ?thesis by simp
  qed
qed

lemma resample_returns:
  assumes "src \<noteq> []" and "r (i + k) \<noteq> 0" and "r (i + k) \<noteq> 255"
  shows "\<exists>y. resample r i src = Some y"
  using assms
proof (induction k arbitrary: i src)
  case 0
  show ?case
  proof (cases "src ! 0 = 0 \<or> src ! 0 = 255")
    case True
    have "(src[0 := r i]) ! 0 = r i" using 0(1) by simp
    then have "resample r (Suc i) (src[0 := r i]) = Some (src[0 := r i])"
      using 0(2,3) by (subst resample.simps) simp
    with True show ?thesis by (subst resample.simps) simp
  next
    case False
    then show ?thesis by (subst resample.simps) simp
  qed
next
  case (Suc k)
  show ?case
  proof (cases "src ! 0 = 0 \<or> src ! 0 = 255")
    case True
    have "\<exists>y. resample r (Suc i) (src[0 := r i]) = Some y"
      using Suc.prems by (intro Suc.IH) simp_all
    with True show ?thesis by (subst resample.simps) simp
  next
    case False
    then show ?thesis by (subst resample.simps) simp
  qed
qed

lemma resample_good: "\<not> (src ! 0 = 0 \<or> src ! 0 = 255) \<Longrightarrow> resample r i src = Some src"
  by (subst resample.simps) simp

lemma pow_t546_run:
  assumes "length src = 128" and "length (sha256 e dst) = 32"
  shows "pow_t546 e src dst =
     Inr (([1, 2, 1, 2, 0, 10, 0, 0] @ [0, 128] @ src @ [0, 32] @ sha256 e dst) @
          ([1, 2, 1, 2, 0, 10, 0, 0] @ [0, 128] @ src @ [0, 32] @ sha256 e dst) @ [0, 172] @
          ([1, 2, 1, 2, 0, 10, 0, 0] @ [0, 128] @ src @ [0, 32] @ sha256 e dst))"
  using assms
  by (simp add: pow_t546_def writeU8_def writeU16_def write_uint_def writeBytes_def
      writeTlv_def read_def new_Writer_def Let_def)

lemma t548_run:
  assumes "resample (rng e) 128 (randomBytes e 128) = Some src"
    and "length (sha256 e (be_bytes 128 (be_decode src + 10000))) = 32"
    and "t546 = ([1, 2, 1, 2, 0, 10, 0, 0] @ [0, 128] @ src @ [0, 32] @
                 sha256 e (be_bytes 128 (be_decode src + 10000))) @
                ([1, 2, 1, 2, 0, 10, 0, 0] @ [0, 128] @ src @ [0, 32] @
                 sha256 e (be_bytes 128 (be_decode src + 10000))) @ [0, 172] @
                ([1, 2, 1, 2, 0, 10, 0, 0] @ [0, 128] @ src @ [0, 32] @
                 sha256 e (be_bytes 128 (be_decode src + 10000)))"
  shows "t548 e args s = Some (Inr (calcPoW e t546), s\<lparr>calls := calls s @ [CalcPoW t546]\<rparr>)"
proof -
  have src: "length src = 128" "src ! 0 \<noteq> 255"
    using resample_SomeD [OF assms(1)] by (simp_all add: randomBytes_def)
  have dst: "pow_dst src = Inr (be_bytes 128 (be_decode src + 10000))"
    using src by (rule pow_dst_run)
  have "pow_t546 e src (be_bytes 128 (be_decode src + 10000)) = Inr t546"
    unfolding assms(3) using src(1) assms(2) by (rule pow_t546_run)
  then show ?thesis
    by (simp add: t548_def assms(1) dst chain_writeBytes_Buf del: be_bytes_numeral chain.simps)
qed

lemma be_bytes_be_decode: "be_bytes (length bs) (be_decode bs) = bs"
proof (induction bs rule: rev_induct)
  case Nil
  show ?case by simp
next
  case (snoc b bs)
  have "unat b < 256" using unsigned_less [of b] by simp
  then show ?case using snoc by (simp add: be_decode_snoc)
qed

lemma be_decode_zeros: "be_decode (replicate n 0 @ bs) = be_decode bs"
  by (induction n) (simp_all add: be_decode_def)

text \<open>
  Claim C2, as amended. For a seed of 128 bytes whose first byte is neither 0 nor 255, the
  target is the seed read as a big-endian integer plus 10000, written as a big-endian
  string of 128 bytes (256 hexadecimal digits), and the digest in the challenge is the
  SHA-256 hash of that target (taken to return its 32 bytes). Both are functions of the
  seed.
\<close>

theorem pow_target:
  assumes "length seed = 128" and "seed ! 0 \<noteq> 0" and "seed ! 0 \<noteq> 255"
    and "length (sha256 e (be_bytes 128 (be_decode seed + 10000))) = 32"
  shows "pow_dst seed = Inr (be_bytes 128 (be_decode seed + 10000)) \<and>
         length (be_bytes 128 (be_decode seed + 10000)) = 128 \<and>
         be_decode (be_bytes 128 (be_decode seed + 10000)) = be_decode seed + 10000 \<and>
         (\<exists>t546. pow_t546 e seed (be_bytes 128 (be_decode seed + 10000)) = Inr t546 \<and>
            take 32 (drop 140 t546) = sha256 e (be_bytes 128 (be_decode seed + 10000)))"
proof (intro conjI)
  show "pow_dst seed = Inr (be_bytes 128 (be_decode seed + 10000))"
    using assms(1,3) by (rule pow_dst_run)
  show "length (be_bytes 128 (be_decode seed + 10000)) = 128"
    by (rule length_be_bytes)
  show "be_decode (be_bytes 128 (be_decode seed + 10000)) = be_decode seed + 10000"
    using assms(1,3) by (intro be_decode_be_bytes seed_plus_fits)
  show "\<exists>t546. pow_t546 e seed (be_bytes 128 (be_decode seed + 10000)) = Inr t546 \<and>
      take 32 (drop 140 t546) = sha256 e (be_bytes 128 (be_decode seed + 10000))"
    using pow_t546_run [OF assms(1,4)] assms(1,4) by (simp del: be_bytes_numeral)
qed

lemma simple_seed:
  "length (1 # replicate 127 (0::byte)) = 128"
  "(1 # replicate 127 (0::byte)) ! 0 \<noteq> 0"
  "(1 # replicate 127 (0::byte)) ! 0 \<noteq> 255"
  by simp_all

lemma simple_seed_target:
  "be_bytes 128 (be_decode (1 # replicate 127 0) + 10000) = 1 # replicate 125 0 @ [0x27, 0x10]"
proof -
  have "be_decode (1 # replicate 125 0 @ [0x27, 0x10]) = 256 ^ 127 + 10000"
    by (simp add: be_decode_Cons be_decode_zeros) (simp add: be_decode_def)
  moreover have "be_decode (1 # replicate 127 0) = 256 ^ 127"
    using be_decode_zeros [of 127 "[]"] by (simp add: be_decode_Cons) (simp add: be_decode_def)
  moreover have "be_bytes (length (1 # replicate 125 0 @ [0x27, 0x10 :: byte]))
      (be_decode (1 # replicate 125 0 @ [0x27, 0x10])) = 1 # replicate 125 0 @ [0x27, 0x10]"
    by (rule be_bytes_be_decode)
  ultimately show ?thesis by (simp del: be_bytes_numeral)
qed

theorem pow_target_witness:
  "length (1 # replicate 127 (0::byte)) = 128 \<and>
   (1 # replicate 127 (0::byte)) ! 0 = 1 \<and>
   length (sha256 example_env (1 # replicate 125 0 @ [0x27, 0x10])) = 32 \<and>
   pow_dst (1 # replicate 127 0) = Inr (1 # replicate 125 0 @ [0x27, 0x10]) \<and>
   be_decode (1 # replicate 125 0 @ [0x27, 0x10]) = be_decode (1 # replicate 127 0) + 10000"
proof -
  have sha: "length (sha256 example_env (be_bytes 128 (be_decode (1 # replicate 127 0) + 10000))) = 32"
    by (simp add: example_env_def alloc_def del: be_bytes_numeral)
  show ?thesis
    using pow_target [OF simple_seed sha] sha
    by (simp add: simple_seed_target del: be_bytes_numeral)
qed

text \<open>
  Claim C2 as stated fails on the seed of a byte 1 followed by 127 zero bytes: its target
  is that seed with the last two bytes 0x27 and 0x10, a string of 128 bytes and not of
  256.
\<close>

theorem pow_target_counterexample:
  "pow_dst (1 # replicate 127 0) = Inr (1 # replicate 125 0 @ [0x27, 0x10]) \<and>
   length (1 # replicate 125 0 @ [0x27, 0x10 :: byte]) = 128 \<and>
   pow_dst (1 # replicate 127 0) \<noteq> Inr (be_bytes 256 (be_decode (1 # replicate 127 0) + 10000))"
proof -
  have run: "pow_dst (1 # replicate 127 0) = Inr (1 # replicate 125 0 @ [0x27, 0x10])"
    using pow_dst_run [OF simple_seed(1,3)] by (simp only: simple_seed_target)
  have "length (1 # replicate 125 0 @ [0x27, 0x10 :: byte]) \<noteq>
      length (be_bytes 256 (be_decode (1 # replicate 127 0) + 10000))"
    by (simp del: be_bytes_numeral)
  then have "1 # replicate 125 0 @ [0x27, 0x10] \<noteq>
      be_bytes 256 (be_decode (1 # replicate 127 0) + 10000)"
    by (rule contrapos_nn) (erule arg_cong)
  with run show ?thesis by (simp del: be_bytes_numeral)
qed

lemma pow_seed_returns:
  assumes "rng e j \<noteq> 0" and "rng e j \<noteq> 255" and "j = 0 \<or> 128 \<le> j"
  shows "\<exists>src. resample (rng e) 128 (randomBytes e 128) = Some src"
proof (cases "j = 0")
  case True
  have "randomBytes e 128 ! 0 = rng e 0"
    by (simp add: randomBytes_def nth_map [of 0 "[0..<128]"] del: upt_Suc)
  then have "\<not> (randomBytes e 128 ! 0 = 0 \<or> randomBytes e 128 ! 0 = 255)"
    using assms(1,2) True by simp
  then have "resample (rng e) 128 (randomBytes e 128) = Some (randomBytes e 128)"
    by (rule resample_good)
  then show ?thesis by blast
next
  case False
  then have "128 + (j - 128) = j" using assms(3) by simp
  moreover have "randomBytes e 128 \<noteq> []"
    by (simp add: randomBytes_def)
  ultimately show ?thesis
    using assms(1,2) by (intro resample_returns [where k = "j - 128"]) simp_all
qed

text \<open>
  Claim C3. When one of the bytes drawn for the first place of the seed is neither 0 nor
  255 (the first byte of the 128 drawn, or a later draw), the encoder of tag 0x548
  returns. With \<open>src\<close> the seed and \<open>A\<close> the assembled buffer, the header 1, 2, 1, 2,
  the 2-byte 10 and two zero bytes followed by the length-prefixed seed and the
  length-prefixed digest of the target, the challenge handed to the solver is \<open>A\<close>, then
  the raw copy of \<open>A\<close>, then the length-prefixed copy of \<open>A\<close>. The solver is called once,
  on this challenge, and its output is the payload. (The digest is taken to return 32
  bytes.)
\<close>

theorem pow_challenge:
  assumes "rng e j \<noteq> 0" and "rng e j \<noteq> 255" and "j = 0 \<or> 128 \<le> j"
    and "\<And>x. length (sha256 e x) = 32"
  shows "\<exists>src A. resample (rng e) 128 (randomBytes e 128) = Some src \<and>
           length src = 128 \<and> src ! 0 \<noteq> 0 \<and> src ! 0 \<noteq> 255 \<and>
           A = [1, 2, 1, 2, 0, 10, 0, 0] @ [0, 128] @ src @ [0, 32] @
               sha256 e (be_bytes 128 (be_decode src + 10000)) \<and>
           t548 e args s =
             Some (Inr (calcPoW e (A @ A @ [0, 172] @ A)),
                   s\<lparr>calls := calls s @ [CalcPoW (A @ A @ [0, 172] @ A)]\<rparr>)"
proof -
  obtain src where src: "resample (rng e) 128 (randomBytes e 128) = Some src"
    using pow_seed_returns [OF assms(1-3)] by blast
  define A where "A = [1, 2, 1, 2, 0, 10, 0, 0] @ [0, 128] @ src @ [0, 32] @
               sha256 e (be_bytes 128 (be_decode src + 10000))"
  have "length src = 128" "src ! 0 \<noteq> 0" "src ! 0 \<noteq> 255"
    using resample_SomeD [OF src] by (simp_all add: randomBytes_def)
  moreover have "t548 e args s =
      Some (Inr (calcPoW e (A @ A @ [0, 172] @ A)),
            s\<lparr>calls := calls s @ [CalcPoW (A @ A @ [0, 172] @ A)]\<rparr>)"
    using src assms(4) by (rule t548_run) (simp only: A_def)
  ultimately show ?thesis using src A_def by blast
qed

lemma example_rng: "rng example_env = of_nat"
  by (simp add: example_env_def)

lemma example_sha256: "length (sha256 example_env x) = 32"
  by (simp add: example_env_def alloc_def)

lemma example_seed_run:
  "resample (rng example_env) 128 (randomBytes example_env 128) = Some example_seed"
proof -
  have first: "randomBytes example_env 128 ! 0 = 0"
    by (simp add: randomBytes_def example_rng nth_map [of 0 "[0..<128]"] del: upt_Suc)
  have "example_seed ! 0 = 128"
    by (simp add: example_seed_def randomBytes_def)
  then have "resample (rng example_env) 129 example_seed = Some example_seed"
    by (intro resample_good) simp
  then show ?thesis
    using first
    by (subst resample.simps) (simp add: example_seed_def example_rng)
qed

theorem pow_challenge_witness:
  "rng example_env 128 = 128 \<and>
   length (sha256 example_env example_seed) = 32 \<and>
   resample (rng example_env) 128 (randomBytes example_env 128) = Some example_seed \<and>
   length example_seed = 128 \<and> example_seed ! 0 = 128 \<and>
   length example_assembled = 172 \<and>
   calcPoW example_env
     (example_assembled @ example_assembled @ [0, 172] @ example_assembled) = [1, 2, 1, 2] \<and>
   t548 example_env [] example_st =
     Some (Inr [1, 2, 1, 2],
           example_st\<lparr>calls :=
             [CalcPoW (example_assembled @ example_assembled @ [0, 172] @ example_assembled)]\<rparr>)"
proof -
  have r: "rng example_env 128 \<noteq> 0" "rng example_env 128 \<noteq> 255" "(128::nat) = 0 \<or> 128 \<le> (128::nat)"
    by (simp_all add: example_rng)
  obtain src A where
    src: "resample (rng example_env) 128 (randomBytes example_env 128) = Some src"
    and len: "length src = 128"
    and A: "A = [1, 2, 1, 2, 0, 10, 0, 0] @ [0, 128] @ src @ [0, 32] @
               sha256 example_env (be_bytes 128 (be_decode src + 10000))"
    and run: "t548 example_env [] example_st =
             Some (Inr (calcPoW example_env (A @ A @ [0, 172] @ A)),
                   example_st\<lparr>calls := calls example_st @ [CalcPoW (A @ A @ [0, 172] @ A)]\<rparr>)"
    using pow_challenge [OF r example_sha256, of "[]" example_st] by blast
  have seed: "src = example_seed" using src example_seed_run by simp
  then have A': "A = example_assembled" using A by (simp only: example_assembled_def)
  have first: "example_seed ! 0 = 128"
    by (simp add: example_seed_def randomBytes_def)
  have rng: "rng example_env 128 = 128" by (simp add: example_rng)
  have alen: "length example_assembled = 172"
    using len seed by (simp add: example_assembled_def example_sha256 del: be_bytes_numeral)
  have out: "calcPoW example_env
      (example_assembled @ example_assembled @ [0, 172] @ example_assembled) = [1, 2, 1, 2]"
    by (simp add: example_env_def example_assembled_def del: be_bytes_numeral)
  have calls: "calls example_st = []" by (simp add: example_st_def)
  have "t548 example_env [] example_st =
     Some (Inr [1, 2, 1, 2],
           example_st\<lparr>calls :=
             [CalcPoW (example_assembled @ example_assembled @ [0, 172] @ example_assembled)]\<rparr>)"
    using run by (simp only: A' out calls append_Nil)
  then show ?thesis
    using rng example_sha256 src seed len first alen out by simp
qed

end
